theory Spec2Isabelle
  imports Complex_Main
begin

section \<open>Animation parameter store (components/Animator.tsx, useAnimatorStore)\<close>

text \<open>
  JavaScript numbers are modelled as mathematical reals: rounding of IEEE doubles is not
  part of the model. The operations of the source that can leave the finite numbers
  (remainder and division by zero) are written out below with an explicit \<open>None\<close>.

  \<open>AnimationSettings\<close> is the object held under \<open>settings\<close> in the zustand store; its
  eight numeric fields are the ones of the store's initial value.
\<close>

record AnimationSettings =
  duration :: real
  depth :: real
  sway :: real
  zoom :: real
  roll :: real
  wave :: real
  exposure :: real
  vignette :: real

text \<open>\<open>keyof AnimationSettings\<close>: the property names \<open>setValue\<close> accepts.\<close>

datatype key = Duration | Depth | Sway | Zoom | Roll | Wave | Exposure | Vignette

text \<open>Property read \<open>settings[key]\<close>.\<close>

fun get_field :: "key \<Rightarrow> AnimationSettings \<Rightarrow> real" where
  "get_field Duration s = duration s"
| "get_field Depth s = depth s"
| "get_field Sway s = sway s"
| "get_field Zoom s = zoom s"
| "get_field Roll s = roll s"
| "get_field Wave s = wave s"
| "get_field Exposure s = exposure s"
| "get_field Vignette s = vignette s"

text \<open>The value the store is created with (Animator.tsx, lines 22-31).\<close>

definition initial_settings :: AnimationSettings where
  "initial_settings =
     \<lparr>duration = 8, depth = 0.35, sway = 0.6, zoom = 0.12, roll = 0.08, wave = 0.15,
      exposure = 1.05, vignette = 0.25\<rparr>"

text \<open>
  \<open>setValue: (key, value) => set((state) => ({settings: {...state.settings, [key]: value}}))\<close>:
  a copy of the current settings with the property named by \<open>key\<close> overwritten.
\<close>

fun setValue :: "key \<Rightarrow> real \<Rightarrow> AnimationSettings \<Rightarrow> AnimationSettings" where
  "setValue Duration v s = s\<lparr>duration := v\<rparr>"
| "setValue Depth v s = s\<lparr>depth := v\<rparr>"
| "setValue Sway v s = s\<lparr>sway := v\<rparr>"
| "setValue Zoom v s = s\<lparr>zoom := v\<rparr>"
| "setValue Roll v s = s\<lparr>roll := v\<rparr>"
| "setValue Wave v s = s\<lparr>wave := v\<rparr>"
| "setValue Exposure v s = s\<lparr>exposure := v\<rparr>"
| "setValue Vignette v s = s\<lparr>vignette := v\<rparr>"

text \<open>
  \<open>reset: () => set({settings: {...}})\<close> (lines 39-51): the settings object is replaced by
  a literal written out a second time in the source; the previous settings are not read.
\<close>

definition reset :: "AnimationSettings \<Rightarrow> AnimationSettings" where
  "reset s =
     \<lparr>duration = 8, depth = 0.35, sway = 0.6, zoom = 0.12, roll = 0.08, wave = 0.15,
      exposure = 1.05, vignette = 0.25\<rparr>"

text \<open>
  The calls a client can make on the store, and the sequence of snapshots a reader of the
  store can observe while a list of calls is executed: JavaScript runs each call to
  completion, and each call performs a single \<open>set\<close>, so the observable snapshots are the
  states between calls.
\<close>

datatype store_call = SetValue key real | Reset

fun store_step :: "store_call \<Rightarrow> AnimationSettings \<Rightarrow> AnimationSettings" where
  "store_step (SetValue k v) s = setValue k v s"
| "store_step Reset s = reset s"

fun snapshots :: "store_call list \<Rightarrow> AnimationSettings \<Rightarrow> AnimationSettings list" where
  "snapshots [] s = [s]"
| "snapshots (c # cs) s = s # snapshots cs (store_step c s)"

section \<open>Scene: phase accumulator and per-frame transforms (Scene in ParallaxStudio)\<close>

record Vector3 =
  vx :: real
  vy :: real
  vz :: real

text \<open>The parts of the displaced mesh the frame callback writes.\<close>

record Mesh =
  rotation_z :: real
  position_z :: real
  displacementScale :: real

text \<open>
  State of one mounted \<open>Scene\<close>: the ref \<open>timeRef\<close>, the camera, the renderer's exposure,
  the refs \<open>meshRef\<close> and \<open>lightRig\<close> (\<open>None\<close> is a \<open>null\<close> ref; the rig is the list of
  its children's positions), and \<open>lastPlaySignal\<close>, the dependency value React remembers
  for the effect \<open>useEffect(() => {timeRef.current = 0}, [playSignal])\<close> (\<open>None\<close> before
  the first commit).
\<close>

record Scene =
  timeRef :: real
  camera_position :: Vector3
  camera_lookAt :: Vector3
  toneMappingExposure :: real
  meshRef :: "Mesh option"
  lightRig :: "Vector3 list option"
  lastPlaySignal :: "int option"

text \<open>
  JavaScript \<open>a % b\<close> on numbers: the remainder of the division truncated towards zero
  (the result has the sign of the dividend); \<open>NaN\<close> for \<open>b = 0\<close>, here \<open>None\<close>.
\<close>

definition trunc :: "real \<Rightarrow> int" where
  "trunc r = (if 0 \<le> r then \<lfloor>r\<rfloor> else \<lceil>r\<rceil>)"

definition js_rem :: "real \<Rightarrow> real \<Rightarrow> real option" where
  "js_rem a b = (if b = 0 then None else Some (a - b * real_of_int (trunc (a / b))))"

text \<open>JavaScript \<open>a / b\<close>: not a finite number for \<open>b = 0\<close>, here \<open>None\<close>.\<close>

definition js_div :: "real \<Rightarrow> real \<Rightarrow> real option" where
  "js_div a b = (if b = 0 then None else Some (a / b))"

text \<open>
  Lines 101-102: \<open>duration = Math.max(0.1, settings.duration)\<close> and
  \<open>normalized = (timeRef.current % duration) / duration\<close>.
\<close>

definition clamped_duration :: "AnimationSettings \<Rightarrow> real" where
  "clamped_duration settings = max 0.1 (duration settings)"

definition normalized_phase :: "real \<Rightarrow> AnimationSettings \<Rightarrow> real option" where
  "normalized_phase t settings =
     (let duration' = clamped_duration settings in
      case js_rem t duration' of
        None \<Rightarrow> None
      | Some r \<Rightarrow> js_div r duration')"

text \<open>The body of \<open>lightRig.current.children.forEach((child, index) => ...)\<close>.\<close>

definition orbit :: "real \<Rightarrow> nat \<Rightarrow> Vector3 \<Rightarrow> Vector3" where
  "orbit cycle index child =
     (let t = cycle + real index * 2 in
      child\<lparr>vx := sin (t * 0.35) * 4,
            vy := cos (t * 0.22) * 3 + 1.5,
            vz := sin (t * 0.18) * 5 + 4\<rparr>)"

definition orbit_all :: "real \<Rightarrow> Vector3 list \<Rightarrow> Vector3 list" where
  "orbit_all cycle children = map (\<lambda>(index, child). orbit cycle index child) (enumerate 0 children)"

text \<open>
  The callback given to \<open>useFrame\<close> (lines 99-133), called with the frame's time delta.
  The result is \<open>None\<close> where the phase is not a finite number.
\<close>

definition useFrame :: "AnimationSettings \<Rightarrow> real \<Rightarrow> Scene \<Rightarrow> Scene option" where
  "useFrame settings delta sc =
     (let t = timeRef sc + delta in
      case normalized_phase t settings of
        None \<Rightarrow> None
      | Some normalized \<Rightarrow>
          (let cycle = normalized * pi * 2;
               sway' = sin cycle * sway settings;
               lift = cos (cycle * 0.8) * sway settings * 0.6;
               zoom' = sin (cycle * 0.5) * zoom settings;
               roll' = sin (cycle * 0.5) * roll settings;
               wave' = sin (cycle * 1.4) * wave settings
           in Some (sc\<lparr>timeRef := t,
                 camera_position := (camera_position sc)\<lparr>vx := sway' * 0.8, vy := lift * 0.4,
                                      vz := 3.1 + zoom' * 3.2\<rparr>,
                 camera_lookAt := \<lparr>vx = 0, vy = 0, vz = 0\<rparr>,
                 toneMappingExposure := exposure settings,
                 meshRef := (case meshRef sc of
                               None \<Rightarrow> None
                             | Some mesh \<Rightarrow>
                                 Some (mesh\<lparr>rotation_z := roll', position_z := wave' * 0.45,
                                        displacementScale := depth settings * 0.75\<rparr>)),
                 lightRig := (case lightRig sc of
                                None \<Rightarrow> None
                              | Some children \<Rightarrow> Some (orbit_all cycle children))\<rparr>)))"

text \<open>
  A render of \<open>Scene\<close> with the prop \<open>playSignal\<close> being committed: React runs the effect
  when the dependency differs from the one of the previous commit (and on mount).
\<close>

definition commitScene :: "int \<Rightarrow> Scene \<Rightarrow> Scene" where
  "commitScene playSignal sc =
     (if lastPlaySignal sc = Some playSignal then sc
      else sc\<lparr>timeRef := 0, lastPlaySignal := Some playSignal\<rparr>)"

text \<open>
  One mounted \<open>Scene\<close> over time: renders that pass a value of the prop \<open>playSignal\<close>, and
  frames, each with the settings the callback reads and its time delta.
\<close>

datatype scene_event = Render int | Frame AnimationSettings real

fun scene_step :: "scene_event \<Rightarrow> Scene \<Rightarrow> Scene option" where
  "scene_step (Render p) sc = Some (commitScene p sc)"
| "scene_step (Frame settings delta) sc = useFrame settings delta sc"

fun scene_run :: "scene_event list \<Rightarrow> Scene \<Rightarrow> Scene option" where
  "scene_run [] sc = Some sc"
| "scene_run (e # es) sc =
     (case scene_step e sc of None \<Rightarrow> None | Some sc' \<Rightarrow> scene_run es sc')"

text \<open>The time deltas of the frames of a run, added up.\<close>

fun frame_time :: "scene_event list \<Rightarrow> real" where
  "frame_time [] = 0"
| "frame_time (Render p # es) = frame_time es"
| "frame_time (Frame settings delta # es) = delta + frame_time es"

text \<open>
  An event that leaves the restart signal at \<open>p\<close>: a render passing \<open>p\<close> again, or a frame
  (the render loop's clock never gives a negative delta).
\<close>

fun steady :: "int \<Rightarrow> scene_event \<Rightarrow> bool" where
  "steady p (Render q) = (q = p)"
| "steady p (Frame settings delta) = (0 \<le> delta)"

text \<open>
  The scene as it is mounted: the camera of \<open>Canvas\<close> at \<open>[0, 0, 3.5]\<close>, the mesh of the JSX
  with \<open>displacementScale = settings.depth\<close>, and the three point lights of the rig.
\<close>

definition initial_scene :: "AnimationSettings \<Rightarrow> Scene" where
  "initial_scene settings =
     \<lparr>timeRef = 0,
      camera_position = \<lparr>vx = 0, vy = 0, vz = 3.5\<rparr>,
      camera_lookAt = \<lparr>vx = 0, vy = 0, vz = 0\<rparr>,
      toneMappingExposure = 1,
      meshRef = Some \<lparr>rotation_z = 0, position_z = 0, displacementScale = depth settings\<rparr>,
      lightRig = Some (replicate 3 \<lparr>vx = 0, vy = 0, vz = 0\<rparr>),
      lastPlaySignal = None\<rparr>"

text \<open>
  The phase as the specification writes it, \<open>cycle = ((e mod d) / d) \<cdot> 2\<pi>\<close>, for a loop
  length \<open>d\<close>; \<open>e mod d\<close> is the real remainder \<open>e - d \<cdot> \<lfloor>e / d\<rfloor>\<close>.
\<close>

definition phase_cycle :: "real \<Rightarrow> real \<Rightarrow> real" where
  "phase_cycle e d = ((e - d * real_of_int \<lfloor>e / d\<rfloor>) / d) * (2 * pi)"

text \<open>
  The settings record above holds finite numbers. The store takes any JavaScript number,
  so the phase of lines 101-102 is given once more for an arbitrary number as
  \<open>settings.duration\<close>: a finite one, an infinity or \<open>NaN\<close> (the zero of the model has no
  sign). The accumulator is a finite number.
\<close>

datatype js_number = Finite real | PosInfinity | NegInfinity | NaN

text \<open>\<open>Math.max(a, x)\<close> for a finite \<open>a\<close>: \<open>NaN\<close> when \<open>x\<close> is.\<close>

fun Math_max :: "real \<Rightarrow> js_number \<Rightarrow> js_number" where
  "Math_max a (Finite b) = Finite (max a b)"
| "Math_max a PosInfinity = PosInfinity"
| "Math_max a NegInfinity = Finite a"
| "Math_max a NaN = NaN"

text \<open>
  \<open>a % x\<close> for a finite \<open>a\<close>: \<open>a\<close> itself for an infinite \<open>x\<close>, \<open>NaN\<close> for \<open>x\<close> zero or
  \<open>NaN\<close>.
\<close>

fun js_rem_number :: "real \<Rightarrow> js_number \<Rightarrow> js_number" where
  "js_rem_number a (Finite b) = (case js_rem a b of None \<Rightarrow> NaN | Some r \<Rightarrow> Finite r)"
| "js_rem_number a PosInfinity = Finite a"
| "js_rem_number a NegInfinity = Finite a"
| "js_rem_number a NaN = NaN"

text \<open>\<open>x / y\<close> on all numbers.\<close>

fun js_div_number :: "js_number \<Rightarrow> js_number \<Rightarrow> js_number" where
  "js_div_number NaN y = NaN"
| "js_div_number x NaN = NaN"
| "js_div_number (Finite a) (Finite b) =
     (if b = 0 then (if a = 0 then NaN else if 0 < a then PosInfinity else NegInfinity)
      else Finite (a / b))"
| "js_div_number (Finite a) PosInfinity = Finite 0"
| "js_div_number (Finite a) NegInfinity = Finite 0"
| "js_div_number PosInfinity (Finite b) = (if 0 \<le> b then PosInfinity else NegInfinity)"
| "js_div_number NegInfinity (Finite b) = (if 0 \<le> b then NegInfinity else PosInfinity)"
| "js_div_number PosInfinity PosInfinity = NaN"
| "js_div_number PosInfinity NegInfinity = NaN"
| "js_div_number NegInfinity PosInfinity = NaN"
| "js_div_number NegInfinity NegInfinity = NaN"

text \<open>
  Lines 101-102 with the accumulator at \<open>t\<close> and \<open>settings.duration = d\<close>:
  \<open>duration = Math.max(0.1, d)\<close>, \<open>normalized = (t % duration) / duration\<close>.
\<close>

definition frame_phase :: "real \<Rightarrow> js_number \<Rightarrow> js_number" where
  "frame_phase t d =
     (let duration' = Math_max 0.1 d
      in js_div_number (js_rem_number t duration') duration')"

section \<open>Capture pipeline and image replacement (components/Animator.tsx, Animator)\<close>

record PreparedImage =
  image_id :: string
  displayName :: string
  originalUrl :: string
  displacementUrl :: string
  aspect :: real

text \<open>
  The browser as far as \<open>Animator\<close> uses it: \<open>MediaRecorder.isTypeSupported\<close>, and the
  number of bytes the \<open>n\<close>-th recorder created hands over when it is stopped.
\<close>

record Platform =
  isTypeSupported :: "string \<Rightarrow> bool"
  dataSize :: "nat \<Rightarrow> nat"

datatype recorder_state = Inactive | Recording

record MediaRecorder =
  mimeType :: string
  state :: recorder_state

text \<open>A chunk of encoded data: the recorder it comes from and its size.\<close>

datatype chunk = Chunk nat nat

fun chunk_size :: "chunk \<Rightarrow> nat" where
  "chunk_size (Chunk r n) = n"

datatype error = NotSupportedError

text \<open>Calls whose order matters, in the order the component makes them.\<close>

datatype action = SignalRestart | RecorderStart nat

text \<open>
  State of the component and of the browser objects it creates. Refs and React state keep
  their names; a React state field holds the value of its latest update, the one the next
  render shows. \<open>store\<close> is the settings in the zustand store. \<open>studio\<close> is the mounted
  \<open>ParallaxStudio\<close>, as of the last commit: its key and the state of its \<open>Scene\<close>;
  \<open>canvases\<close> counts the canvases created so far, a canvas being identified by its number.
  Recorders are identified by their position in \<open>recorders\<close>, object URLs by their position
  in \<open>objectUrls\<close> (the blob each one serves). \<open>timers\<close> holds the pending \<open>setTimeout\<close>
  callbacks, each with its deadline in milliseconds and the recorder its closure stops;
  \<open>now\<close> is the clock in milliseconds. Time is logical: a timer runs when the clock reaches
  its deadline.
\<close>

record App =
  store :: AnimationSettings
  canvasRef :: "nat option"
  recorderRef :: "nat option"
  chunksRef :: "chunk list"
  prepared :: "PreparedImage option"
  isLoading :: bool
  isRecording :: bool
  downloadUrl :: "nat option"
  playSignal :: int
  studio :: "(string \<times> Scene) option"
  canvases :: nat
  recorders :: "MediaRecorder list"
  timers :: "(real \<times> nat) list"
  now :: real
  objectUrls :: "chunk list list"
  actions :: "action list"

text \<open>State at mount: the \<open>useState\<close>/\<open>useRef\<close> initial values (lines 58-66).\<close>

definition initial_app :: App where
  "initial_app =
     \<lparr>store = initial_settings, canvasRef = None, recorderRef = None, chunksRef = [],
      prepared = None, isLoading = True, isRecording = False, downloadUrl = None,
      playSignal = 0, studio = None, canvases = 0, recorders = [], timers = [], now = 0,
      objectUrls = [], actions = []\<rparr>"

text \<open>The nested conditional choosing \<open>mimeType\<close> (lines 136-140).\<close>

definition select_mimeType :: "Platform \<Rightarrow> string" where
  "select_mimeType pf =
     (if isTypeSupported pf ''video/webm;codecs=vp9'' then ''video/webm;codecs=vp9''
      else if isTypeSupported pf ''video/webm;codecs=vp8'' then ''video/webm;codecs=vp8''
      else ''video/webm'')"

text \<open>
  \<open>new MediaRecorder(stream, {mimeType})\<close>: the constructor throws \<open>NotSupportedError\<close>
  for a type the platform does not support; a new recorder is inactive.
\<close>

definition new_MediaRecorder :: "Platform \<Rightarrow> string \<Rightarrow> error + MediaRecorder" where
  "new_MediaRecorder pf t =
     (if isTypeSupported pf t then Inr \<lparr>mimeType = t, state = Inactive\<rparr>
      else Inl NotSupportedError)"

text \<open>
  The delay of \<open>setTimeout(handler, timeout)\<close>: the argument is converted to a 32-bit
  signed integer (truncated towards zero, then taken modulo \<open>2^32\<close> into
  \<open>-2^31 .. 2^31 - 1\<close>), and a negative delay counts as 0.
\<close>

definition to_long :: "real \<Rightarrow> int" where
  "to_long x = (let n = trunc x mod 2 ^ 32 in if 2 ^ 31 \<le> n then n - 2 ^ 32 else n)"

definition timer_delay :: "real \<Rightarrow> real" where
  "timer_delay timeout = real_of_int (max 0 (to_long timeout))"

text \<open>\<open>recorder.ondataavailable\<close> (lines 150-154).\<close>

definition ondataavailable :: "chunk \<Rightarrow> App \<Rightarrow> App" where
  "ondataavailable d st =
     (if chunk_size d \<noteq> 0 then st\<lparr>chunksRef := chunksRef st @ [d]\<rparr> else st)"

text \<open>
  \<open>recorder.onstop\<close> (lines 156-161): the chunks become one blob, \<open>URL.createObjectURL\<close>
  makes a new URL for it.
\<close>

definition onstop :: "App \<Rightarrow> App" where
  "onstop st =
     (let blob = chunksRef st;
          url = length (objectUrls st)
      in st\<lparr>objectUrls := objectUrls st @ [blob], downloadUrl := Some url,
            isRecording := False\<rparr>)"

text \<open>
  \<open>recorder.stop()\<close> on recorder \<open>r\<close>: nothing happens on an inactive recorder; an active
  one becomes inactive, delivers its data and then fires \<open>stop\<close>. The two events are taken
  to be dispatched before any other callback of the component runs.
\<close>

definition recorder_stop :: "Platform \<Rightarrow> nat \<Rightarrow> App \<Rightarrow> App" where
  "recorder_stop pf r st =
     (if r < length (recorders st) \<and> state (recorders st ! r) = Recording then
        onstop (ondataavailable (Chunk r (dataSize pf r))
          (st\<lparr>recorders := (recorders st)[r := (recorders st ! r)\<lparr>state := Inactive\<rparr>]\<rparr>))
      else st)"

text \<open>
  \<open>handleRecord\<close> (lines 129-170), as built by \<open>useCallback\<close> in one render:
  \<open>seen_isRecording\<close> and \<open>seen_duration\<close> are the values of \<open>isRecording\<close> and
  \<open>settings.duration\<close> that render captured. The guard reads the captured flag; the refs
  are read and written in place; \<open>setPlaySignal\<close> is given an updater, so it counts from
  the latest value.
\<close>

definition handleRecord :: "Platform \<Rightarrow> bool \<Rightarrow> real \<Rightarrow> App \<Rightarrow> error + App" where
  "handleRecord pf seen_isRecording seen_duration st =
     (if canvasRef st = None \<or> seen_isRecording then Inr st
      else
        case new_MediaRecorder pf (select_mimeType pf) of
          Inl e \<Rightarrow> Inl e
        | Inr recorder \<Rightarrow>
            (let r = length (recorders st)
             in Inr (st\<lparr>recorders := recorders st @ [recorder\<lparr>state := Recording\<rparr>],
                     recorderRef := Some r,
                     chunksRef := [],
                     downloadUrl := None,
                     isRecording := True,
                     playSignal := playSignal st + 1,
                     timers := timers st @ [(now st + timer_delay (seen_duration * 1000), r)],
                     actions := actions st @ [SignalRestart, RecorderStart r]\<rparr>)))"

text \<open>
  The handler of one render called twice in immediate succession: both calls are the same
  closure.
\<close>

definition handleRecord_twice :: "Platform \<Rightarrow> App \<Rightarrow> error + App" where
  "handleRecord_twice pf st =
     (case handleRecord pf (isRecording st) (duration (store st)) st of
        Inl e \<Rightarrow> Inl e
      | Inr st' \<Rightarrow> handleRecord pf (isRecording st) (duration (store st)) st')"

text \<open>\<open>stopRecording\<close> (lines 172-176).\<close>

definition stopRecording :: "Platform \<Rightarrow> App \<Rightarrow> App" where
  "stopRecording pf st =
     (case recorderRef st of
        None \<Rightarrow> st
      | Some r \<Rightarrow>
          if r < length (recorders st) \<and> state (recorders st ! r) = Recording
          then recorder_stop pf r st else st)"

text \<open>
  \<open>handleFileChange\<close> (lines 101-127) up to \<open>reader.readAsDataURL(file)\<close>; the argument is
  the name of the chosen file, \<open>None\<close> when no file was chosen.
\<close>

definition handleFileChange :: "string option \<Rightarrow> App \<Rightarrow> App" where
  "handleFileChange chosen st =
     (case chosen of
        None \<Rightarrow> st
      | Some name \<Rightarrow> st\<lparr>isLoading := True, downloadUrl := None\<rparr>)"

text \<open>
  \<open>reader.onload\<close> (lines 110-123), by what the reader and \<open>prepareImage\<close> deliver: a result
  that is not a string, a preparation that throws, or a prepared image.
\<close>

datatype load_outcome = NotAString | PrepareFailed | Prepared PreparedImage

fun reader_onload :: "load_outcome \<Rightarrow> App \<Rightarrow> App" where
  "reader_onload NotAString st = st\<lparr>isLoading := False\<rparr>"
| "reader_onload PrepareFailed st = st\<lparr>isLoading := False\<rparr>"
| "reader_onload (Prepared mapped) st = st\<lparr>prepared := Some mapped, isLoading := False\<rparr>"

text \<open>
  The \<open>bootstrap\<close> effect (lines 79-99): the default image, prepared (\<open>Some\<close>), or a
  failure that is logged (\<open>None\<close>).
\<close>

fun bootstrap :: "PreparedImage option \<Rightarrow> App \<Rightarrow> App" where
  "bootstrap (Some mapped) st = st\<lparr>prepared := Some mapped, isLoading := False\<rparr>"
| "bootstrap None st = st\<lparr>isLoading := False\<rparr>"

text \<open>
  The clock moves to \<open>t\<close>: the timers that are due run in the order of their deadlines
  (each one is \<open>() => recorder.stop()\<close> for its own recorder) and are removed.
\<close>

definition advance :: "Platform \<Rightarrow> real \<Rightarrow> App \<Rightarrow> App" where
  "advance pf t st =
     (if t < now st then st
      else
        let due = sort_key fst (filter (\<lambda>(deadline, r). deadline \<le> t) (timers st));
            rest = filter (\<lambda>(deadline, r). \<not> deadline \<le> t) (timers st)
        in foldl (\<lambda>s (deadline, r). recorder_stop pf r s) (st\<lparr>now := t, timers := rest\<rparr>) due)"

text \<open>
  React commits a render of the component (lines 342-356). \<open>ParallaxStudio\<close> is there when
  an image is prepared and nothing is loading, keyed by the image's id: one that stays
  receives the current \<open>playSignal\<close>, whose effect runs in the commit; a new one is mounted
  with a new canvas, which \<open>onCreated\<close> registers in \<open>canvasRef\<close>. Without it the studio is
  unmounted; \<open>canvasRef\<close> keeps the last canvas.
\<close>

definition mount :: "PreparedImage \<Rightarrow> App \<Rightarrow> App" where
  "mount img st =
     st\<lparr>studio := Some (image_id img, commitScene (playSignal st) (initial_scene (store st))),
        canvasRef := Some (canvases st),
        canvases := canvases st + 1\<rparr>"

definition commit :: "App \<Rightarrow> App" where
  "commit st =
     (case prepared st of
        None \<Rightarrow> st\<lparr>studio := None\<rparr>
      | Some img \<Rightarrow>
          if isLoading st then st\<lparr>studio := None\<rparr>
          else
            case studio st of
              None \<Rightarrow> mount img st
            | Some (k, sc) \<Rightarrow>
                if k = image_id img
                then st\<lparr>studio := Some (k, commitScene (playSignal st) sc)\<rparr>
                else mount img st)"

text \<open>A frame of the render loop: the callback of the mounted scene, with the settings.\<close>

definition frame :: "real \<Rightarrow> App \<Rightarrow> App" where
  "frame delta st =
     (case studio st of
        None \<Rightarrow> st
      | Some (k, sc) \<Rightarrow>
          case useFrame (store st) delta sc of
            None \<Rightarrow> st
          | Some sc' \<Rightarrow> st\<lparr>studio := Some (k, sc')\<rparr>)"

text \<open>
  What can happen to the mounted component. Each event runs the handler of the render
  committed last, and React commits the updates before the next event. An error thrown by
  \<open>handleRecord\<close> rejects the promise the click handler drops: no state was set, nothing
  is rendered.
\<close>

datatype event =
    Bootstrapped "PreparedImage option"
  | Store store_call
  | ClickRecord
  | ClickStop
  | FileChange "string option"
  | ReaderLoaded load_outcome
  | Advance real
  | AnimationFrame real

fun step :: "Platform \<Rightarrow> event \<Rightarrow> App \<Rightarrow> App" where
  "step pf (Bootstrapped r) st = commit (bootstrap r st)"
| "step pf (Store c) st = commit (st\<lparr>store := store_step c (store st)\<rparr>)"
| "step pf ClickRecord st =
     (case handleRecord pf (isRecording st) (duration (store st)) st of
        Inl e \<Rightarrow> st
      | Inr st' \<Rightarrow> commit st')"
| "step pf ClickStop st = commit (stopRecording pf st)"
| "step pf (FileChange chosen) st = commit (handleFileChange chosen st)"
| "step pf (ReaderLoaded outcome) st = commit (reader_onload outcome st)"
| "step pf (Advance t) st = commit (advance pf t st)"
| "step pf (AnimationFrame delta) st = frame delta st"

fun run :: "Platform \<Rightarrow> event list \<Rightarrow> App \<Rightarrow> App" where
  "run pf [] st = st"
| "run pf (e # es) st = run pf es (step pf e st)"

text \<open>
  What holds in every state the component reaches: a recorder that is recording is the one
  in \<open>recorderRef\<close> and \<open>isRecording\<close> is set; while \<open>isRecording\<close> is set the recorder
  in \<open>recorderRef\<close> is recording; every pending timer belongs to a recorder that exists.
\<close>

definition app_inv :: "App \<Rightarrow> bool" where
  "app_inv st \<longleftrightarrow>
     (\<forall>i < length (recorders st).
        state (recorders st ! i) = Recording \<longrightarrow> isRecording st \<and> recorderRef st = Some i) \<and>
     (isRecording st \<longrightarrow>
        (case recorderRef st of
           None \<Rightarrow> False
         | Some r \<Rightarrow> r < length (recorders st) \<and> state (recorders st ! r) = Recording)) \<and>
     (\<forall>(deadline, r) \<in> set (timers st). r < length (recorders st))"

text \<open>
  What a commit leaves: the studio is mounted exactly when an image is prepared and nothing
  is loading, under the image's id, and its scene has seen the current \<open>playSignal\<close>.
\<close>

definition committed :: "App \<Rightarrow> bool" where
  "committed st \<longleftrightarrow>
     (case prepared st of
        None \<Rightarrow> studio st = None
      | Some img \<Rightarrow>
          if isLoading st then studio st = None
          else
            case studio st of
              None \<Rightarrow> False
            | Some (k, sc) \<Rightarrow> k = image_id img \<and> lastPlaySignal sc = Some (playSignal st))"

text \<open>
  The image an event makes the active one, if any: the default image when the bootstrap
  succeeds, an uploaded image when its preparation succeeds.
\<close>

fun installs :: "event \<Rightarrow> PreparedImage option" where
  "installs (Bootstrapped (Some mapped)) = Some mapped"
| "installs (ReaderLoaded (Prepared mapped)) = Some mapped"
| "installs e = None"

fun last_installed :: "event list \<Rightarrow> PreparedImage option \<Rightarrow> PreparedImage option" where
  "last_installed [] p = p"
| "last_installed (e # es) p =
     last_installed es (case installs e of None \<Rightarrow> p | Some mapped \<Rightarrow> Some mapped)"

text \<open>
  The codecs in the order of preference the specification speaks of: the three types the
  nested conditional goes through.
\<close>

definition codec_preferences :: "string list" where
  "codec_preferences = [''video/webm;codecs=vp9'', ''video/webm;codecs=vp8'', ''video/webm'']"

text \<open>
  The blob the recorder \<open>r\<close> of a capture leaves when it is stopped with no chunk gathered
  before: its data, if it has any.
\<close>

definition capture_blob :: "Platform \<Rightarrow> nat \<Rightarrow> chunk list" where
  "capture_blob pf r = (if dataSize pf r \<noteq> 0 then [Chunk r (dataSize pf r)] else [])"

text \<open>
  Sessions: a platform that supports every type and gives each recorder 1000 bytes, the
  default image and an uploaded one. In the first the user starts a capture, uploads a new
  image and then waits for the eight seconds of the default duration. In the second five
  seconds of frames have passed and the duration is set to three million seconds before
  the capture is started.
\<close>

definition demo_platform :: Platform where
  "demo_platform = \<lparr>isTypeSupported = (\<lambda>t. True), dataSize = (\<lambda>r. 1000)\<rparr>"

definition default_image :: PreparedImage where
  "default_image =
     \<lparr>image_id = ''id-1'', displayName = ''Dreamscape Muse'', originalUrl = ''data:1'',
      displacementUrl = ''map:1'', aspect = 16 / 9\<rparr>"

definition uploaded_image :: PreparedImage where
  "uploaded_image =
     \<lparr>image_id = ''id-2'', displayName = ''beach.png'', originalUrl = ''data:2'',
      displacementUrl = ''map:2'', aspect = 4 / 3\<rparr>"

definition capture_ready :: "event list" where
  "capture_ready = [Bootstrapped (Some default_image)]"

definition capture_started :: "event list" where
  "capture_started = capture_ready @ [ClickRecord]"

definition upload_during_capture :: "event list" where
  "upload_during_capture =
     capture_started @
     [FileChange (Some ''beach.png''), ReaderLoaded (Prepared uploaded_image), Advance 8000]"

definition long_capture_ready :: "event list" where
  "long_capture_ready =
     [Bootstrapped (Some default_image), AnimationFrame 5, Store (SetValue Duration 3000000)]"

section \<open>The parameter store\<close>

lemma reset_initial: "reset s = initial_settings"
  by (simp add: reset_def initial_settings_def)

lemma snapshots_append:
  "snapshots (cs @ c # cs') s =
     snapshots cs s @ snapshots cs' (store_step c (foldl (\<lambda>s c. store_step c s) s cs))"
  by (induction cs arbitrary: s) simp_all

text \<open>
  C8. Whatever calls came before, from whatever settings, \<open>reset\<close> leaves exactly the
  table the store is created with, so a read right after it yields that table. The
  snapshots a reader can observe around a \<open>reset\<close> are those before it followed directly
  by those from the default table on: no snapshot mixes default and earlier values.
\<close>

theorem reset_restores_defaults:
  "store_step Reset (foldl (\<lambda>s c. store_step c s) s0 cs) = initial_settings \<and>
   last (snapshots (cs @ [Reset]) s0) = initial_settings \<and>
   snapshots (cs @ Reset # cs') s0 = snapshots cs s0 @ snapshots cs' initial_settings"
  by (simp add: snapshots_append reset_initial)

text \<open>
  C9. \<open>setValue(k, v)\<close> yields settings whose field \<open>k\<close> is \<open>v\<close> and whose every other
  field is the one of the settings before.
\<close>

theorem setValue_frame:
  "get_field k (setValue k v s) = v \<and>
   (\<forall>k'. k' \<noteq> k \<longrightarrow> get_field k' (setValue k v s) = get_field k' s)"
proof (intro conjI allI impI)
  show "get_field k (setValue k v s) = v"
    by (cases k) simp_all
next
  fix k'
  assume "k' \<noteq> k"
  then show "get_field k' (setValue k v s) = get_field k' s"
    by (cases k; cases k') simp_all
qed

theorem setValue_frame_witness:
  "get_field Depth (setValue Depth 0.5 initial_settings) = 0.5 \<and>
   Sway \<noteq> Depth \<and> get_field Sway (setValue Depth 0.5 initial_settings) = 0.6"
  using setValue_frame [of Depth "0.5" initial_settings] by (simp add: initial_settings_def)

section \<open>The normalized phase\<close>

lemma clamped_duration_ge: "0.1 \<le> clamped_duration s"
  by (simp add: clamped_duration_def)

lemma js_rem_nonneg:
  assumes "0 \<le> t" and "0 < d"
  shows "js_rem t d = Some (t - d * real_of_int \<lfloor>t / d\<rfloor>)"
  using assms by (simp add: js_rem_def trunc_def)

lemma remainder_bounds:
  assumes "0 < (d::real)"
  shows "0 \<le> (t - d * real_of_int \<lfloor>t / d\<rfloor>) / d \<and> (t - d * real_of_int \<lfloor>t / d\<rfloor>) / d < 1"
proof -
  have e: "(t - d * real_of_int \<lfloor>t / d\<rfloor>) / d = t / d - real_of_int \<lfloor>t / d\<rfloor>"
    using assms by (simp add: field_simps)
  show ?thesis
    unfolding e by linarith
qed

lemma normalized_phase_nonneg:
  assumes "0 \<le> t"
  shows "normalized_phase t s = Some (phase_cycle t (clamped_duration s) / (2 * pi))"
proof -
  have d: "0 < clamped_duration s"
    using clamped_duration_ge [of s] by linarith
  show ?thesis
    using d js_rem_nonneg [OF assms d]
    by (simp add: normalized_phase_def Let_def js_div_def phase_cycle_def)
qed

lemma normalized_phase_total: "\<exists>n. normalized_phase t s = Some n"
proof -
  have "clamped_duration s \<noteq> 0"
    using clamped_duration_ge [of s] by linarith
  then show ?thesis
    by (simp add: normalized_phase_def Let_def js_div_def js_rem_def)
qed

text \<open>The phase at two instants under a loop length of 0.05 s, below the clamp.\<close>

lemma normalized_phase_short_loop_half:
  "normalized_phase 0.05 (initial_settings\<lparr>duration := 0.05, zoom := 1\<rparr>) = Some 0.5"
  by (simp add: normalized_phase_def clamped_duration_def js_rem_def js_div_def trunc_def
      initial_settings_def)


lemma sin_quarter_turn: "sin (1 / 2 * pi * 2 * (1 / 2)) = (1::real)"
proof -
  have "1 / 2 * pi * 2 * (1 / 2) = pi / 2"
    by simp
  then show ?thesis
    by (simp only: sin_pi_half)
qed

section \<open>The frame callback\<close>

lemma orbit_all_length: "length (orbit_all c ls) = length ls"
  by (simp add: orbit_all_def)

lemma orbit_all_nth: "i < length ls \<Longrightarrow> orbit_all c ls ! i = orbit c i (ls ! i)"
  by (simp add: orbit_all_def nth_enumerate_eq)

lemma useFrame_Some:
  assumes "normalized_phase (timeRef sc + delta) settings = Some n"
  shows "useFrame settings delta sc =
     Some (sc\<lparr>timeRef := timeRef sc + delta,
              camera_position := (camera_position sc)
                \<lparr>vx := sin (n * pi * 2) * sway settings * 0.8,
                 vy := cos (n * pi * 2 * 0.8) * sway settings * 0.6 * 0.4,
                 vz := 3.1 + sin (n * pi * 2 * 0.5) * zoom settings * 3.2\<rparr>,
              camera_lookAt := \<lparr>vx = 0, vy = 0, vz = 0\<rparr>,
              toneMappingExposure := exposure settings,
              meshRef := (case meshRef sc of
                            None \<Rightarrow> None
                          | Some mesh \<Rightarrow>
                              Some (mesh\<lparr>rotation_z := sin (n * pi * 2 * 0.5) * roll settings,
                                     position_z := sin (n * pi * 2 * 1.4) * wave settings * 0.45,
                                     displacementScale := depth settings * 0.75\<rparr>)),
              lightRig := (case lightRig sc of
                             None \<Rightarrow> None
                           | Some children \<Rightarrow> Some (orbit_all (n * pi * 2) children))\<rparr>)"
  by (simp only: useFrame_def Let_def assms option.case)

lemma useFrame_time:
  "\<exists>sc'. useFrame settings delta sc = Some sc' \<and> timeRef sc' = timeRef sc + delta \<and>
         lastPlaySignal sc' = lastPlaySignal sc"
proof -
  obtain n where n: "normalized_phase (timeRef sc + delta) settings = Some n"
    using normalized_phase_total by blast
  show ?thesis
    unfolding useFrame_Some [OF n] by simp
qed

text \<open>
  C1, as the code has it. For every frame evaluated at an elapsed time
  \<open>e = timeRef + delta \<ge> 0\<close> and all settings, with
  \<open>cycle = ((e mod d) / d) \<cdot> 2\<pi>\<close> for the clamped loop length
  \<open>d = max(0.1, settings.duration)\<close>, the callback puts the camera at
  \<open>(0.8 \<cdot> sin(cycle) \<cdot> sway, 0.4 \<cdot> (cos(0.8 \<cdot> cycle) \<cdot> sway \<cdot> 0.6), 3.1 + 3.2 \<cdot> sin(0.5 \<cdot> cycle) \<cdot> zoom)\<close>
  looking at the origin, sets the exposure to \<open>settings.exposure\<close>, sets the mesh (when the
  ref holds one) to z-rotation \<open>sin(0.5 \<cdot> cycle) \<cdot> roll\<close>, z-position
  \<open>0.45 \<cdot> sin(1.4 \<cdot> cycle) \<cdot> wave\<close> and displacement scale \<open>0.75 \<cdot> depth\<close>, and puts the
  light of index \<open>i\<close> (when the rig is there), with \<open>t = cycle + 2 \<cdot> i\<close>, at
  \<open>(4 \<cdot> sin(0.35 t), 3 \<cdot> cos(0.22 t) + 1.5, 5 \<cdot> sin(0.18 t) + 4)\<close>.
\<close>

theorem useFrame_transforms_clamped:
  assumes "0 \<le> timeRef sc + delta"
  shows "let e = timeRef sc + delta;
             cycle = phase_cycle e (max 0.1 (duration settings))
         in \<exists>sc'. useFrame settings delta sc = Some sc' \<and>
              camera_position sc' =
                \<lparr>vx = 0.8 * (sin cycle * sway settings),
                 vy = 0.4 * (cos (0.8 * cycle) * sway settings * 0.6),
                 vz = 3.1 + 3.2 * (sin (0.5 * cycle) * zoom settings)\<rparr> \<and>
              camera_lookAt sc' = \<lparr>vx = 0, vy = 0, vz = 0\<rparr> \<and>
              toneMappingExposure sc' = exposure settings \<and>
              (\<forall>m. meshRef sc = Some m \<longrightarrow>
                 (\<exists>m'. meshRef sc' = Some m' \<and>
                    rotation_z m' = sin (0.5 * cycle) * roll settings \<and>
                    position_z m' = 0.45 * (sin (1.4 * cycle) * wave settings) \<and>
                    displacementScale m' = 0.75 * depth settings)) \<and>
              (\<forall>ls. lightRig sc = Some ls \<longrightarrow>
                 (\<exists>ls'. lightRig sc' = Some ls' \<and> length ls' = length ls \<and>
                    (\<forall>i < length ls.
                       ls' ! i =
                         \<lparr>vx = 4 * sin (0.35 * (cycle + 2 * real i)),
                          vy = 3 * cos (0.22 * (cycle + 2 * real i)) + 1.5,
                          vz = 5 * sin (0.18 * (cycle + 2 * real i)) + 4\<rparr>)))"
proof -
  define n where "n = phase_cycle (timeRef sc + delta) (clamped_duration settings) / (2 * pi)"
  have c: "n * pi * 2 = phase_cycle (timeRef sc + delta) (max 0.1 (duration settings))"
    by (simp add: n_def clamped_duration_def)
  have np: "normalized_phase (timeRef sc + delta) settings = Some n"
    unfolding n_def by (rule normalized_phase_nonneg [OF assms])
  show ?thesis
    unfolding Let_def useFrame_Some [OF np] c
    by (auto simp: orbit_all_length orbit_all_nth orbit_def Let_def mult.commute)
qed

text \<open>
  The frame two seconds after mount under the default settings: a quarter of the loop of
  eight seconds, \<open>cycle = \<pi>/2\<close>.
\<close>

theorem useFrame_transforms_clamped_witness:
  "0 \<le> timeRef (initial_scene initial_settings) + 2 \<and>
   (\<exists>sc'. useFrame initial_settings 2 (initial_scene initial_settings) = Some sc' \<and>
      vx (camera_position sc') = 0.48 \<and>
      toneMappingExposure sc' = 1.05 \<and>
      (\<exists>m'. meshRef sc' = Some m' \<and> displacementScale m' = 0.2625) \<and>
      (\<exists>ls'. lightRig sc' = Some ls' \<and> length ls' = 3 \<and>
         vy (ls' ! 0) = 3 * cos (0.22 * (pi / 2)) + 1.5))"
proof -
  have h: "0 \<le> timeRef (initial_scene initial_settings) + 2"
    by (simp add: initial_scene_def)
  have t: "timeRef (initial_scene initial_settings) = 0"
    by (simp add: initial_scene_def)
  have c: "phase_cycle (timeRef (initial_scene initial_settings) + 2)
             (max 0.1 (duration initial_settings)) = pi / 2"
    unfolding t by (simp add: phase_cycle_def initial_settings_def)
  have m: "meshRef (initial_scene initial_settings) =
             Some \<lparr>rotation_z = 0, position_z = 0, displacementScale = depth initial_settings\<rparr>"
    by (simp add: initial_scene_def)
  have l: "lightRig (initial_scene initial_settings) = Some (replicate 3 \<lparr>vx = 0, vy = 0, vz = 0\<rparr>)"
    by (simp add: initial_scene_def)
  from useFrame_transforms_clamped [OF h, of initial_settings]
  obtain sc' where 1: "useFrame initial_settings 2 (initial_scene initial_settings) = Some sc'"
    and 2: "camera_position sc' =
              \<lparr>vx = 0.8 * (sin (pi / 2) * sway initial_settings),
               vy = 0.4 * (cos (0.8 * (pi / 2)) * sway initial_settings * 0.6),
               vz = 3.1 + 3.2 * (sin (0.5 * (pi / 2)) * zoom initial_settings)\<rparr>"
    and 3: "toneMappingExposure sc' = exposure initial_settings"
    and 4: "\<forall>m. meshRef (initial_scene initial_settings) = Some m \<longrightarrow>
              (\<exists>m'. meshRef sc' = Some m' \<and>
                 rotation_z m' = sin (0.5 * (pi / 2)) * roll initial_settings \<and>
                 position_z m' = 0.45 * (sin (1.4 * (pi / 2)) * wave initial_settings) \<and>
                 displacementScale m' = 0.75 * depth initial_settings)"
    and 5: "\<forall>ls. lightRig (initial_scene initial_settings) = Some ls \<longrightarrow>
              (\<exists>ls'. lightRig sc' = Some ls' \<and> length ls' = length ls \<and>
                 (\<forall>i < length ls.
                    ls' ! i =
                      \<lparr>vx = 4 * sin (0.35 * (pi / 2 + 2 * real i)),
                       vy = 3 * cos (0.22 * (pi / 2 + 2 * real i)) + 1.5,
                       vz = 5 * sin (0.18 * (pi / 2 + 2 * real i)) + 4\<rparr>))"
    unfolding Let_def c by blast
  from 4 m obtain m' where 6: "meshRef sc' = Some m'"
    "displacementScale m' = 0.75 * depth initial_settings"
    by blast
  from 5 l obtain ls' where 7: "lightRig sc' = Some ls'" "length ls' = 3"
    "\<forall>i < 3. ls' ! i = \<lparr>vx = 4 * sin (0.35 * (pi / 2 + 2 * real i)),
                          vy = 3 * cos (0.22 * (pi / 2 + 2 * real i)) + 1.5,
                          vz = 5 * sin (0.18 * (pi / 2 + 2 * real i)) + 4\<rparr>"
    by fastforce
  from 7(3) have 8: "vy (ls' ! 0) = 3 * cos (0.22 * (pi / 2)) + 1.5"
    by simp
  have 9: "vx (camera_position sc') = 0.48"
    unfolding 2 by (simp add: initial_settings_def)
  have 10: "toneMappingExposure sc' = 1.05"
    unfolding 3 by (simp add: initial_settings_def)
  have 11: "displacementScale m' = 0.2625"
    unfolding 6(2) by (simp add: initial_settings_def)
  show ?thesis
    using h 1 9 10 6(1) 11 7(1,2) 8 by blast
qed

text \<open>
  C1 as stated, with the phase taken over \<open>settings.duration\<close> itself, fails below the
  clamp. With \<open>duration = 0.05\<close> and \<open>zoom = 1\<close>, the frame at elapsed time 0.05 has the
  camera at \<open>z = 6.3\<close> (the clamped loop of 0.1 s is half way), where the stated formula
  gives \<open>3.1\<close> (a loop of 0.05 s would be back at its start).
\<close>

theorem useFrame_unclamped_cycle_counterexample:
  "map_option (\<lambda>sc'. vz (camera_position sc'))
     (useFrame (initial_settings\<lparr>duration := 0.05, zoom := 1\<rparr>) 0.05
        (initial_scene initial_settings)) = Some 6.3 \<and>
   3.1 + 3.2 * (sin (0.5 * phase_cycle 0.05
                   (duration (initial_settings\<lparr>duration := 0.05, zoom := 1\<rparr>)))
          * zoom (initial_settings\<lparr>duration := 0.05, zoom := 1\<rparr>)) = 3.1"
proof (rule conjI)
  have t: "timeRef (initial_scene initial_settings) + 0.05 = 0.05"
    by (simp add: initial_scene_def)
  have n: "normalized_phase (timeRef (initial_scene initial_settings) + 0.05)
             (initial_settings\<lparr>duration := 0.05, zoom := 1\<rparr>) = Some 0.5"
    unfolding t by (rule normalized_phase_short_loop_half)
  show "map_option (\<lambda>sc'. vz (camera_position sc'))
     (useFrame (initial_settings\<lparr>duration := 0.05, zoom := 1\<rparr>) 0.05
        (initial_scene initial_settings)) = Some 6.3"
    unfolding useFrame_Some [OF n] by (simp add: sin_quarter_turn)
next
  have b: "phase_cycle 0.05 (duration (initial_settings\<lparr>duration := 0.05, zoom := 1\<rparr>)) = 0"
    by (simp add: phase_cycle_def)
  show "3.1 + 3.2 * (sin (0.5 * phase_cycle 0.05
                   (duration (initial_settings\<lparr>duration := 0.05, zoom := 1\<rparr>)))
          * zoom (initial_settings\<lparr>duration := 0.05, zoom := 1\<rparr>)) = 3.1"
    unfolding b by simp
qed




lemma frame_phase_finite:
  "frame_phase t (Finite (duration s)) =
     (case normalized_phase t s of None \<Rightarrow> NaN | Some n \<Rightarrow> Finite n)"
proof -
  have d: "clamped_duration s \<noteq> 0"
    using clamped_duration_ge [of s] by linarith
  have m: "Math_max 0.1 (Finite (duration s)) = Finite (clamped_duration s)"
    by (simp add: clamped_duration_def)
  show ?thesis
    unfolding frame_phase_def Let_def m
    using d by (simp add: normalized_phase_def Let_def js_rem_def js_div_def)
qed

lemma frame_phase_bounds:
  assumes "0 \<le> t" and "d \<noteq> NaN"
  shows "\<exists>n. frame_phase t d = Finite n \<and> 0 \<le> n \<and> n < 1"
proof (cases d)
  case (Finite x)
  have c: "0 < max 0.1 x"
    by simp
  have "js_rem t (max 0.1 x) = Some (t - max 0.1 x * real_of_int \<lfloor>t / max 0.1 x\<rfloor>)"
    by (rule js_rem_nonneg [OF assms(1) c])
  then have "frame_phase t d =
      Finite ((t - max 0.1 x * real_of_int \<lfloor>t / max 0.1 x\<rfloor>) / max 0.1 x)"
    using c by (simp add: frame_phase_def Finite)
  then show ?thesis
    using remainder_bounds [OF c, of t] by simp
next
  case PosInfinity
  then show ?thesis
    by (simp add: frame_phase_def)
next
  case NegInfinity
  have c: "0 < (0.1::real)"
    by simp
  have "js_rem t 0.1 = Some (t - 0.1 * real_of_int \<lfloor>t / 0.1\<rfloor>)"
    by (rule js_rem_nonneg [OF assms(1) c])
  then have "frame_phase t d = Finite ((t - 0.1 * real_of_int \<lfloor>t / 0.1\<rfloor>) / 0.1)"
    by (simp add: frame_phase_def NegInfinity)
  then show ?thesis
    using remainder_bounds [OF c, of t] by simp
next
  case NaN
  then show ?thesis
    using assms(2) by simp
qed

lemma Math_max_clamp:
  assumes "d \<noteq> NaN"
  shows "Math_max 0.1 d = PosInfinity \<or> (\<exists>x. Math_max 0.1 d = Finite x \<and> 0.1 \<le> x)"
proof (cases d)
  case (Finite b)
  then show ?thesis by simp
next
  case PosInfinity
  then show ?thesis by simp
next
  case NegInfinity
  have "Math_max 0.1 d = Finite 0.1 \<and> (0.1::real) \<le> 0.1"
    by (simp add: NegInfinity)
  then show ?thesis by blast
next
  case NaN
  then show ?thesis using assms by simp
qed

text \<open>
  C10, as the code has it. For every number other than \<open>NaN\<close> as \<open>settings.duration\<close>
  (zero, the negative numbers and the infinities included) the loop length the callback
  divides by, \<open>Math.max(0.1, settings.duration)\<close>, is positive infinity or a finite number
  of at least 0.1, never zero, and at every elapsed time \<open>t \<ge> 0\<close> the normalized phase is
  a finite number in \<open>[0, 1)\<close>. For every settings record the callback's frame at an elapsed
  time \<open>e = timeRef + delta \<ge> 0\<close> is computed from that phase, which is
  \<open>(e - d \<cdot> \<lfloor>e / d\<rfloor>) / d\<close> for \<open>d = max(0.1, settings.duration)\<close>.
\<close>

theorem frame_phase_in_unit_interval:
  assumes "0 \<le> t" and "d \<noteq> NaN" and "0 \<le> timeRef sc + delta"
  shows "(Math_max 0.1 d = PosInfinity \<or> (\<exists>x. Math_max 0.1 d = Finite x \<and> 0.1 \<le> x)) \<and>
         (\<exists>n. frame_phase t d = Finite n \<and> 0 \<le> n \<and> n < 1) \<and>
         (\<exists>n sc'. frame_phase (timeRef sc + delta) (Finite (duration settings)) = Finite n \<and>
            0 \<le> n \<and> n < 1 \<and>
            n = (timeRef sc + delta - max 0.1 (duration settings) *
                   real_of_int \<lfloor>(timeRef sc + delta) / max 0.1 (duration settings)\<rfloor>)
                / max 0.1 (duration settings) \<and>
            useFrame settings delta sc = Some sc' \<and>
            timeRef sc' = timeRef sc + delta \<and>
            camera_position sc' =
              \<lparr>vx = sin (n * pi * 2) * sway settings * 0.8,
               vy = cos (n * pi * 2 * 0.8) * sway settings * 0.6 * 0.4,
               vz = 3.1 + sin (n * pi * 2 * 0.5) * zoom settings * 3.2\<rparr>)"
proof (intro conjI)
  show "Math_max 0.1 d = PosInfinity \<or> (\<exists>x. Math_max 0.1 d = Finite x \<and> 0.1 \<le> x)"
    by (rule Math_max_clamp [OF assms(2)])
  show "\<exists>n. frame_phase t d = Finite n \<and> 0 \<le> n \<and> n < 1"
    by (rule frame_phase_bounds [OF assms(1,2)])
  define c where "c = max 0.1 (duration settings)"
  define n where "n = (timeRef sc + delta - c * real_of_int \<lfloor>(timeRef sc + delta) / c\<rfloor>) / c"
  have c: "0 < c"
    by (simp add: c_def)
  have np: "normalized_phase (timeRef sc + delta) settings = Some n"
    using c js_rem_nonneg [OF assms(3) c]
    by (simp add: normalized_phase_def Let_def js_div_def clamped_duration_def c_def n_def)
  have fp: "frame_phase (timeRef sc + delta) (Finite (duration settings)) = Finite n"
    by (simp add: frame_phase_finite np)
  have b: "0 \<le> n \<and> n < 1"
    unfolding n_def by (rule remainder_bounds [OF c])
  have u: "\<exists>sc'. useFrame settings delta sc = Some sc' \<and>
            timeRef sc' = timeRef sc + delta \<and>
            camera_position sc' =
              \<lparr>vx = sin (n * pi * 2) * sway settings * 0.8,
               vy = cos (n * pi * 2 * 0.8) * sway settings * 0.6 * 0.4,
               vz = 3.1 + sin (n * pi * 2 * 0.5) * zoom settings * 3.2\<rparr>"
    unfolding useFrame_Some [OF np] by simp
  show "\<exists>n sc'. frame_phase (timeRef sc + delta) (Finite (duration settings)) = Finite n \<and>
            0 \<le> n \<and> n < 1 \<and>
            n = (timeRef sc + delta - max 0.1 (duration settings) *
                   real_of_int \<lfloor>(timeRef sc + delta) / max 0.1 (duration settings)\<rfloor>)
                / max 0.1 (duration settings) \<and>
            useFrame settings delta sc = Some sc' \<and>
            timeRef sc' = timeRef sc + delta \<and>
            camera_position sc' =
              \<lparr>vx = sin (n * pi * 2) * sway settings * 0.8,
               vy = cos (n * pi * 2 * 0.8) * sway settings * 0.6 * 0.4,
               vz = 3.1 + sin (n * pi * 2 * 0.5) * zoom settings * 3.2\<rparr>"
    using fp b u unfolding n_def c_def by blast
qed

text \<open>
  A duration of \<open>-3\<close> and one of 0 are both clamped to 0.1: a quarter of a second is half
  way through the third loop.
\<close>

theorem frame_phase_in_unit_interval_witness:
  "(0::real) \<le> 0.25 \<and> Finite (-3) \<noteq> NaN \<and>
   0 \<le> timeRef (initial_scene initial_settings) + 0.25 \<and>
   Math_max 0.1 (Finite (-3)) = Finite 0.1 \<and>
   frame_phase 0.25 (Finite (-3)) = Finite 0.5 \<and>
   frame_phase (timeRef (initial_scene initial_settings) + 0.25)
     (Finite (duration (initial_settings\<lparr>duration := 0\<rparr>))) = Finite 0.5 \<and>
   map_option timeRef
     (useFrame (initial_settings\<lparr>duration := 0\<rparr>) 0.25 (initial_scene initial_settings)) =
     Some 0.25"
proof -
  have h1: "(0::real) \<le> 0.25"
    by simp
  have h2: "Finite (-3) \<noteq> NaN"
    by simp
  have h3: "0 \<le> timeRef (initial_scene initial_settings) + 0.25"
    by (simp add: initial_scene_def)
  have t: "timeRef (initial_scene initial_settings) = 0"
    by (simp add: initial_scene_def)
  have m: "Math_max 0.1 (Finite (-3)) = Finite 0.1"
    by simp
  have p: "frame_phase 0.25 (Finite (-3)) = Finite 0.5"
    by (simp add: frame_phase_def js_rem_def trunc_def)
  have q: "frame_phase (timeRef (initial_scene initial_settings) + 0.25)
     (Finite (duration (initial_settings\<lparr>duration := 0\<rparr>))) = Finite 0.5"
    unfolding t by (simp add: frame_phase_def js_rem_def trunc_def)
  from frame_phase_in_unit_interval [OF h1 h2 h3, of "initial_settings\<lparr>duration := 0\<rparr>"]
  obtain sc' where
    "useFrame (initial_settings\<lparr>duration := 0\<rparr>) 0.25 (initial_scene initial_settings) = Some sc'"
    "timeRef sc' = timeRef (initial_scene initial_settings) + 0.25"
    by blast
  then have u: "map_option timeRef
     (useFrame (initial_settings\<lparr>duration := 0\<rparr>) 0.25 (initial_scene initial_settings)) =
     Some 0.25"
    by (simp add: t)
  show ?thesis
    using h1 h2 h3 m p q u by blast
qed

text \<open>
  C10 as stated, for every settings record, fails where \<open>settings.duration\<close> is \<open>NaN\<close>,
  a value the store takes: \<open>Math.max(0.1, NaN)\<close> is \<open>NaN\<close> and so is the normalized
  phase.
\<close>

theorem frame_phase_NaN_counterexample:
  "Math_max 0.1 NaN = NaN \<and> frame_phase 0.25 NaN = NaN"
  by (simp add: frame_phase_def)

section \<open>The restart signal\<close>

lemma commitScene_same: "lastPlaySignal sc = Some p \<Longrightarrow> commitScene p sc = sc"
  by (simp add: commitScene_def)

lemma steady_run:
  assumes "lastPlaySignal sc = Some p" and "\<forall>e \<in> set evs. steady p e"
  shows "\<exists>sc'. scene_run evs sc = Some sc' \<and> timeRef sc' = timeRef sc + frame_time evs \<and>
           timeRef sc \<le> timeRef sc' \<and> lastPlaySignal sc' = Some p"
  using assms
proof (induction evs arbitrary: sc)
  case Nil
  then show ?case by simp
next
  case (Cons e evs)
  show ?case
  proof (cases e)
    case (Render q)
    with Cons.prems have q: "q = p"
      by simp
    have "scene_step e sc = Some sc"
      using Render q Cons.prems(1) by (simp add: commitScene_same)
    moreover obtain sc' where "scene_run evs sc = Some sc'"
      "timeRef sc' = timeRef sc + frame_time evs"
      "timeRef sc \<le> timeRef sc'" "lastPlaySignal sc' = Some p"
      using Cons.IH [of sc] Cons.prems by auto
    ultimately show ?thesis
      using Render by simp
  next
    case (Frame settings delta)
    with Cons.prems have d: "0 \<le> delta"
      by simp
    obtain sc1 where s1: "useFrame settings delta sc = Some sc1"
      "timeRef sc1 = timeRef sc + delta" "lastPlaySignal sc1 = lastPlaySignal sc"
      using useFrame_time by blast
    obtain sc' where "scene_run evs sc1 = Some sc'"
      "timeRef sc' = timeRef sc1 + frame_time evs"
      "timeRef sc1 \<le> timeRef sc'" "lastPlaySignal sc' = Some p"
      using Cons.IH [of sc1] Cons.prems s1 by auto
    then show ?thesis
      using Frame s1 d by simp
  qed
qed

text \<open>
  C7. A render that passes a value \<open>p\<close> of the restart signal other than the one of the
  previous commit sets the accumulator to 0, whatever it held, and the next frame is
  evaluated at its own delta. While renders pass the value \<open>q\<close> of the previous commit and
  frames have non-negative deltas, the run is never reset: the accumulator ends at its
  start value plus the sum of the deltas, never below its start value.
\<close>

theorem restart_signal_edge_triggered:
  "(lastPlaySignal sc \<noteq> Some p \<longrightarrow>
      timeRef (commitScene p sc) = 0 \<and> lastPlaySignal (commitScene p sc) = Some p \<and>
      (\<exists>sc'. useFrame settings delta (commitScene p sc) = Some sc' \<and> timeRef sc' = delta)) \<and>
   (lastPlaySignal sc = Some q \<and> (\<forall>e \<in> set evs. steady q e) \<longrightarrow>
      (\<exists>sc'. scene_run evs sc = Some sc' \<and> timeRef sc' = timeRef sc + frame_time evs \<and>
         timeRef sc \<le> timeRef sc' \<and> lastPlaySignal sc' = Some q))"
proof (intro conjI impI)
  assume a: "lastPlaySignal sc \<noteq> Some p"
  then show "timeRef (commitScene p sc) = 0"
    by (simp add: commitScene_def)
  from a show "lastPlaySignal (commitScene p sc) = Some p"
    by (simp add: commitScene_def)
  from a have "timeRef (commitScene p sc) = 0"
    by (simp add: commitScene_def)
  then show "\<exists>sc'. useFrame settings delta (commitScene p sc) = Some sc' \<and> timeRef sc' = delta"
    using useFrame_time [of settings delta "commitScene p sc"] by auto
next
  assume "lastPlaySignal sc = Some q \<and> (\<forall>e \<in> set evs. steady q e)"
  then show "\<exists>sc'. scene_run evs sc = Some sc' \<and> timeRef sc' = timeRef sc + frame_time evs \<and>
         timeRef sc \<le> timeRef sc' \<and> lastPlaySignal sc' = Some q"
    using steady_run by blast
qed

theorem restart_signal_edge_triggered_witness:
  "lastPlaySignal (commitScene 0 (initial_scene initial_settings)) \<noteq> Some 1 \<and>
   timeRef (commitScene 1 (commitScene 0 (initial_scene initial_settings))) = 0 \<and>
   lastPlaySignal (commitScene 0 (initial_scene initial_settings)) = Some 0 \<and>
   list_all (steady 0) [Frame initial_settings 0.5, Render 0, Frame initial_settings 0.25] \<and>
   (\<exists>sc'. scene_run [Frame initial_settings 0.5, Render 0, Frame initial_settings 0.25]
             (commitScene 0 (initial_scene initial_settings)) = Some sc' \<and>
           timeRef sc' = 0.75)"
proof -
  let ?sc = "commitScene 0 (initial_scene initial_settings)"
  let ?evs = "[Frame initial_settings 0.5, Render 0, Frame initial_settings 0.25]"
  have a: "lastPlaySignal ?sc \<noteq> Some 1"
    by (simp add: commitScene_def initial_scene_def)
  have b: "lastPlaySignal ?sc = Some 0"
    by (simp add: commitScene_def initial_scene_def)
  have c: "\<forall>e \<in> set ?evs. steady 0 e"
    by simp
  have t: "timeRef ?sc = 0"
    by (simp add: commitScene_def initial_scene_def)
  show ?thesis
    using a b c t
      restart_signal_edge_triggered [where sc = ?sc and p = 1 and q = 0 and evs = ?evs
        and settings = initial_settings and delta = 0]
    by (auto simp del: scene_run.simps)
qed

section \<open>Reachable states of the component\<close>

lemma app_inv_initial: "app_inv initial_app"
  by (simp add: app_inv_def initial_app_def)

lemma app_invI:
  assumes "\<And>i. i < length (recorders st) \<Longrightarrow> state (recorders st ! i) = Recording \<Longrightarrow>
             isRecording st \<and> recorderRef st = Some i"
    and "isRecording st \<Longrightarrow>
           \<exists>r. recorderRef st = Some r \<and> r < length (recorders st) \<and>
               state (recorders st ! r) = Recording"
    and "\<And>d r. (d, r) \<in> set (timers st) \<Longrightarrow> r < length (recorders st)"
  shows "app_inv st"
  unfolding app_inv_def
proof (intro conjI allI impI)
  fix i
  assume "i < length (recorders st)" "state (recorders st ! i) = Recording"
  then show "isRecording st" "recorderRef st = Some i"
    using assms(1) by blast+
next
  assume "isRecording st"
  then obtain r where "recorderRef st = Some r" "r < length (recorders st)"
    "state (recorders st ! r) = Recording"
    using assms(2) by blast
  then show "case recorderRef st of None \<Rightarrow> False
             | Some r \<Rightarrow> r < length (recorders st) \<and> state (recorders st ! r) = Recording"
    by simp
next
  show "\<forall>(deadline, r) \<in> set (timers st). r < length (recorders st)"
    using assms(3) by blast
qed

lemma app_inv_timers:
  assumes "app_inv st" "(d, r) \<in> set (timers st)"
  shows "r < length (recorders st)"
  using assms unfolding app_inv_def by blast

lemma app_inv_recording:
  assumes "app_inv st" "i < length (recorders st)" "state (recorders st ! i) = Recording"
  shows "isRecording st" and "recorderRef st = Some i"
  using assms unfolding app_inv_def by blast+

lemma app_inv_ref:
  assumes "app_inv st" "isRecording st"
  shows "\<exists>r. recorderRef st = Some r \<and> r < length (recorders st) \<and>
             state (recorders st ! r) = Recording"
proof (cases "recorderRef st")
  case None
  then show ?thesis using assms unfolding app_inv_def by simp
next
  case (Some r)
  then show ?thesis using assms unfolding app_inv_def by simp
qed

lemma app_inv_cong:
  assumes "app_inv st" and "recorders st' = recorders st" and "isRecording st' = isRecording st"
    and "recorderRef st' = recorderRef st" and "timers st' = timers st"
  shows "app_inv st'"
  using assms(1) unfolding app_inv_def assms(2-5) .

lemma recorder_stop_idle:
  assumes "\<not> (r < length (recorders st) \<and> state (recorders st ! r) = Recording)"
  shows "recorder_stop pf r st = st"
  using assms by (auto simp: recorder_stop_def)

lemma recorder_stop_fields:
  assumes "r < length (recorders st)" "state (recorders st ! r) = Recording"
  shows "recorders (recorder_stop pf r st) = (recorders st)[r := (recorders st ! r)\<lparr>state := Inactive\<rparr>]"
    and "isRecording (recorder_stop pf r st) = False"
    and "recorderRef (recorder_stop pf r st) = recorderRef st"
    and "timers (recorder_stop pf r st) = timers st"
    and "objectUrls (recorder_stop pf r st) =
           objectUrls st @ [chunksRef st @ (if dataSize pf r \<noteq> 0 then [Chunk r (dataSize pf r)] else [])]"
    and "downloadUrl (recorder_stop pf r st) = Some (length (objectUrls st))"
    and "now (recorder_stop pf r st) = now st"
    and "prepared (recorder_stop pf r st) = prepared st"
    and "isLoading (recorder_stop pf r st) = isLoading st"
    and "playSignal (recorder_stop pf r st) = playSignal st"
    and "studio (recorder_stop pf r st) = studio st"
  using assms by (simp_all add: recorder_stop_def onstop_def ondataavailable_def Let_def)

lemma app_inv_recorder_stop:
  assumes "app_inv st"
  shows "app_inv (recorder_stop pf r st)"
proof (cases "r < length (recorders st) \<and> state (recorders st ! r) = Recording")
  case False
  then show ?thesis using assms by (simp add: recorder_stop_idle)
next
  case True
  then have r: "r < length (recorders st)" "state (recorders st ! r) = Recording" by simp_all
  have quiet: "state ((recorders st)[r := (recorders st ! r)\<lparr>state := Inactive\<rparr>] ! i) \<noteq> Recording"
    if i: "i < length (recorders st)" for i
  proof (cases "i = r")
    case True
    then show ?thesis using i by simp
  next
    case False
    have "state (recorders st ! i) \<noteq> Recording"
    proof
      assume "state (recorders st ! i) = Recording"
      then have "recorderRef st = Some i"
        using app_inv_recording(2) [OF assms i] by simp
      moreover have "recorderRef st = Some r"
        using app_inv_recording(2) [OF assms r] by simp
      ultimately show False using False by simp
    qed
    then show ?thesis using False by simp
  qed
  show ?thesis
  proof (rule app_invI)
    fix i
    assume "i < length (recorders (recorder_stop pf r st))"
      "state (recorders (recorder_stop pf r st) ! i) = Recording"
    then show "isRecording (recorder_stop pf r st) \<and> recorderRef (recorder_stop pf r st) = Some i"
      using quiet [of i] by (simp add: recorder_stop_fields(1) [OF r])
  next
    assume "isRecording (recorder_stop pf r st)"
    then show "\<exists>r'. recorderRef (recorder_stop pf r st) = Some r' \<and>
        r' < length (recorders (recorder_stop pf r st)) \<and>
        state (recorders (recorder_stop pf r st) ! r') = Recording"
      by (simp add: recorder_stop_fields(2) [OF r])
  next
    fix d r'
    assume "(d, r') \<in> set (timers (recorder_stop pf r st))"
    then show "r' < length (recorders (recorder_stop pf r st))"
      using app_inv_timers [OF assms, of d r']
      by (simp add: recorder_stop_fields(1,4) [OF r])
  qed
qed

lemma handleRecord_started:
  assumes "canvasRef st \<noteq> None" "isTypeSupported pf (select_mimeType pf)"
  shows "handleRecord pf False d st =
     Inr (st\<lparr>recorders := recorders st @ [\<lparr>mimeType = select_mimeType pf, state = Recording\<rparr>],
             recorderRef := Some (length (recorders st)),
             chunksRef := [],
             downloadUrl := None,
             isRecording := True,
             playSignal := playSignal st + 1,
             timers := timers st @ [(now st + timer_delay (d * 1000), length (recorders st))],
             actions := actions st @ [SignalRestart, RecorderStart (length (recorders st))]\<rparr>)"
  using assms by (auto simp: handleRecord_def new_MediaRecorder_def Let_def)

lemma handleRecord_unsupported:
  assumes "canvasRef st \<noteq> None" "\<not> isTypeSupported pf (select_mimeType pf)"
  shows "handleRecord pf False d st = Inl NotSupportedError"
  using assms by (simp add: handleRecord_def new_MediaRecorder_def)

lemma handleRecord_guard:
  assumes "canvasRef st = None \<or> seen"
  shows "handleRecord pf seen d st = Inr st"
  using assms by (auto simp add: handleRecord_def)

lemma app_inv_idle_inactive:
  assumes "app_inv st" "\<not> isRecording st" "i < length (recorders st)"
  shows "state (recorders st ! i) = Inactive"
proof (cases "state (recorders st ! i)")
  case Inactive
  then show ?thesis .
next
  case Recording
  then show ?thesis using app_inv_recording(1) [OF assms(1,3)] assms(2) by simp
qed

lemma app_inv_started:
  assumes "app_inv st" and "\<not> isRecording st"
  shows "app_inv (st\<lparr>recorders := recorders st @ [\<lparr>mimeType = m, state = Recording\<rparr>],
             recorderRef := Some (length (recorders st)),
             chunksRef := [],
             downloadUrl := None,
             isRecording := True,
             playSignal := playSignal st + 1,
             timers := timers st @ [(dl, length (recorders st))],
             actions := actions st @ acts\<rparr>)"
    (is "app_inv ?s")
proof (rule app_invI)
  fix i
  assume "i < length (recorders ?s)" and "state (recorders ?s ! i) = Recording"
  then have i: "i < Suc (length (recorders st))"
    and s: "state ((recorders st @ [\<lparr>mimeType = m, state = Recording\<rparr>]) ! i) = Recording"
    by simp_all
  have "i = length (recorders st)"
  proof (rule ccontr)
    assume "i \<noteq> length (recorders st)"
    then have lt: "i < length (recorders st)"
      using i by simp
    then have "state (recorders st ! i) = Recording"
      using s by (simp add: nth_append)
    then show False
      using app_inv_idle_inactive [OF assms lt] by simp
  qed
  then show "isRecording ?s \<and> recorderRef ?s = Some i"
    by simp
next
  show "\<exists>r. recorderRef ?s = Some r \<and> r < length (recorders ?s) \<and>
          state (recorders ?s ! r) = Recording"
    by simp
next
  fix d r
  assume "(d, r) \<in> set (timers ?s)"
  then have "(d, r) \<in> set (timers st) \<or> r = length (recorders st)"
    by auto
  then show "r < length (recorders ?s)"
    using app_inv_timers [OF assms(1), of d r] by auto
qed

lemma commit_fields:
  "recorders (commit st) = recorders st"
  "isRecording (commit st) = isRecording st"
  "recorderRef (commit st) = recorderRef st"
  "timers (commit st) = timers st"
  "now (commit st) = now st"
  "objectUrls (commit st) = objectUrls st"
  "downloadUrl (commit st) = downloadUrl st"
  "prepared (commit st) = prepared st"
  "isLoading (commit st) = isLoading st"
  "playSignal (commit st) = playSignal st"
  "store (commit st) = store st"
  "chunksRef (commit st) = chunksRef st"
  "actions (commit st) = actions st"
  by (simp_all add: commit_def mount_def split: option.splits prod.splits)

lemma app_inv_commit: "app_inv st \<Longrightarrow> app_inv (commit st)"
  by (rule app_inv_cong) (simp_all add: commit_fields)

lemma frame_fields:
  "recorders (frame delta st) = recorders st"
  "isRecording (frame delta st) = isRecording st"
  "recorderRef (frame delta st) = recorderRef st"
  "timers (frame delta st) = timers st"
  "now (frame delta st) = now st"
  "objectUrls (frame delta st) = objectUrls st"
  "downloadUrl (frame delta st) = downloadUrl st"
  "prepared (frame delta st) = prepared st"
  "isLoading (frame delta st) = isLoading st"
  "playSignal (frame delta st) = playSignal st"
  "store (frame delta st) = store st"
  "canvasRef (frame delta st) = canvasRef st"
  by (simp_all add: frame_def split: option.splits prod.splits)

lemma app_inv_frame: "app_inv st \<Longrightarrow> app_inv (frame delta st)"
  by (rule app_inv_cong) (simp_all add: frame_fields)

lemma app_inv_click:
  assumes "app_inv st"
  shows "app_inv (step pf ClickRecord st)"
proof (cases "canvasRef st = None \<or> isRecording st")
  case True
  then show ?thesis using assms by (simp add: handleRecord_guard app_inv_commit)
next
  case False
  then have g: "canvasRef st \<noteq> None" "\<not> isRecording st" by simp_all
  show ?thesis
  proof (cases "isTypeSupported pf (select_mimeType pf)")
    case False
    then show ?thesis using assms g by (simp add: handleRecord_unsupported)
  next
    case True
    show ?thesis
      using app_inv_commit [OF app_inv_started [OF assms g(2)]] g(2)
      by (simp add: handleRecord_started [OF g(1) True])
  qed
qed

lemma app_inv_stopRecording: "app_inv st \<Longrightarrow> app_inv (stopRecording pf st)"
  by (cases "recorderRef st") (simp_all add: stopRecording_def app_inv_recorder_stop)

lemma app_inv_foldl_stop:
  "app_inv s \<Longrightarrow> app_inv (foldl (\<lambda>s (deadline, r). recorder_stop pf r s) s l)"
proof (induction l arbitrary: s)
  case Nil
  then show ?case by simp
next
  case (Cons a l)
  obtain d r where a: "a = (d, r)" by (cases a)
  show ?case
    using Cons.IH [OF app_inv_recorder_stop [OF Cons.prems, of pf r]] by (simp add: a)
qed

lemma app_inv_advance:
  assumes "app_inv st"
  shows "app_inv (advance pf t st)"
proof (cases "t < now st")
  case True
  then show ?thesis using assms by (simp add: advance_def)
next
  case False
  let ?rest = "filter (\<lambda>(deadline, r). \<not> deadline \<le> t) (timers st)"
  have "app_inv (st\<lparr>now := t, timers := ?rest\<rparr>)" (is "app_inv ?s")
  proof (rule app_invI)
    fix i
    assume "i < length (recorders ?s)" and "state (recorders ?s ! i) = Recording"
    then show "isRecording ?s \<and> recorderRef ?s = Some i"
      using app_inv_recording [OF assms, of i] by simp
  next
    assume "isRecording ?s"
    then show "\<exists>r. recorderRef ?s = Some r \<and> r < length (recorders ?s) \<and>
        state (recorders ?s ! r) = Recording"
      using app_inv_ref [OF assms] by simp
  next
    fix d r
    assume "(d, r) \<in> set (timers ?s)"
    then show "r < length (recorders ?s)"
      using app_inv_timers [OF assms, of d r] by simp
  qed
  then show ?thesis
    using False by (simp add: advance_def Let_def app_inv_foldl_stop)
qed

lemma app_inv_step:
  assumes "app_inv st"
  shows "app_inv (step pf e st)"
proof (cases e)
  case (Bootstrapped r)
  have "app_inv (bootstrap r st)"
    by (cases r; rule app_inv_cong [OF assms]) simp_all
  then show ?thesis
    unfolding Bootstrapped by (simp add: app_inv_commit)
next
  case (Store c)
  have "app_inv (st\<lparr>store := store_step c (store st)\<rparr>)"
    by (rule app_inv_cong [OF assms]) simp_all
  then show ?thesis
    unfolding Store by (simp add: app_inv_commit)
next
  case ClickRecord
  show ?thesis
    unfolding ClickRecord by (rule app_inv_click [OF assms])
next
  case ClickStop
  show ?thesis
    unfolding ClickStop using assms by (simp add: app_inv_stopRecording app_inv_commit)
next
  case (FileChange f)
  have "app_inv (handleFileChange f st)"
    by (cases f; rule app_inv_cong [OF assms]) (simp_all add: handleFileChange_def)
  then show ?thesis
    unfolding FileChange by (simp add: app_inv_commit)
next
  case (ReaderLoaded outcome)
  have "app_inv (reader_onload outcome st)"
    by (cases outcome; rule app_inv_cong [OF assms]) simp_all
  then show ?thesis
    unfolding ReaderLoaded by (simp add: app_inv_commit)
next
  case (Advance t)
  show ?thesis
    unfolding Advance using assms by (simp add: app_inv_advance app_inv_commit)
next
  case (AnimationFrame delta)
  show ?thesis
    unfolding AnimationFrame using assms by (simp add: app_inv_frame)
qed

lemma app_inv_run: "app_inv st \<Longrightarrow> app_inv (run pf evs st)"
  by (induction evs arbitrary: st) (simp_all add: app_inv_step)

lemma app_inv_reachable: "app_inv (run pf evs initial_app)"
  by (rule app_inv_run [OF app_inv_initial])

lemma committed_commit: "committed (commit st)"
  by (auto simp: committed_def commit_def mount_def commitScene_def
      split: option.splits prod.splits)

lemma commit_committed: "committed st \<Longrightarrow> commit st = st"
  by (auto simp: committed_def commit_def commitScene_def split: option.splits prod.splits if_splits)

lemma useFrame_lastPlaySignal:
  "useFrame settings delta sc = Some sc' \<Longrightarrow> lastPlaySignal sc' = lastPlaySignal sc"
  using useFrame_time [of settings delta sc] by auto

lemma committed_frame: "committed st \<Longrightarrow> committed (frame delta st)"
  by (auto simp: committed_def frame_def split: option.splits prod.splits if_splits
      dest: useFrame_lastPlaySignal)

lemma committed_step:
  assumes "committed st"
  shows "committed (step pf e st)"
proof (cases e)
  case ClickRecord
  then show ?thesis
    using assms by (cases "handleRecord pf (isRecording st) (duration (store st)) st")
      (simp_all add: committed_commit)
next
  case (AnimationFrame delta)
  then show ?thesis using assms by (simp add: committed_frame)
qed (simp_all add: committed_commit)

lemma committed_run: "committed st \<Longrightarrow> committed (run pf evs st)"
  by (induction evs arbitrary: st) (simp_all add: committed_step)

lemma committed_reachable: "committed (run pf evs initial_app)"
  by (rule committed_run) (simp add: committed_def initial_app_def)

section \<open>Starting a capture\<close>

lemma run_append: "run pf (a @ b) st = run pf b (run pf a st)"
  by (induction a arbitrary: st) simp_all

lemma select_supported_iff:
  "isTypeSupported pf (select_mimeType pf) \<longleftrightarrow> (\<exists>m \<in> set codec_preferences. isTypeSupported pf m)"
  by (auto simp: select_mimeType_def codec_preferences_def)

lemma find_select:
  "find (isTypeSupported pf) codec_preferences = Some m \<Longrightarrow> select_mimeType pf = m"
  by (auto simp: select_mimeType_def codec_preferences_def split: if_splits)

text \<open>
  C3. Called from a render that shows no recording in progress, with a canvas registered,
  \<open>handleRecord\<close> fails with \<open>NotSupportedError\<close> (the error the specification calls
  UnsupportedCodecError) exactly when the platform supports none of the types of the
  preference list; the click then leaves the state as it was, not recording. Otherwise the
  recorder it starts has the first type of the list that the platform supports.
\<close>

theorem handleRecord_codec_selection:
  assumes "canvasRef st \<noteq> None" and "\<not> isRecording st"
  shows "(handleRecord pf (isRecording st) d st = Inl NotSupportedError \<longleftrightarrow>
            (\<forall>m \<in> set codec_preferences. \<not> isTypeSupported pf m)) \<and>
         (handleRecord pf (isRecording st) (duration (store st)) st = Inl NotSupportedError \<longrightarrow>
            step pf ClickRecord st = st \<and> \<not> isRecording (step pf ClickRecord st)) \<and>
         (\<forall>m. find (isTypeSupported pf) codec_preferences = Some m \<longrightarrow>
            (\<exists>st'. handleRecord pf (isRecording st) d st = Inr st' \<and> isRecording st' \<and>
               recorders st' = recorders st @ [\<lparr>mimeType = m, state = Recording\<rparr>]))"
proof (cases "isTypeSupported pf (select_mimeType pf)")
  case True
  have s: "\<exists>m \<in> set codec_preferences. isTypeSupported pf m"
    using True select_supported_iff by blast
  show ?thesis
    using s assms(2)
    by (auto simp: handleRecord_started [OF assms(1) True] dest: find_select)
next
  case False
  have s: "\<forall>m \<in> set codec_preferences. \<not> isTypeSupported pf m"
    using False select_supported_iff by blast
  have "find (isTypeSupported pf) codec_preferences = None"
    using s by (simp add: find_None_iff)
  then show ?thesis
    using s assms by (simp add: handleRecord_unsupported [OF assms(1) False])
qed

lemma foldl_stop_idle:
  assumes "\<forall>(d, r') \<in> set l. \<not> (r' < length (recorders s) \<and> state (recorders s ! r') = Recording)"
  shows "foldl (\<lambda>s (deadline, r). recorder_stop pf r s) s l = s"
  using assms
proof (induction l)
  case Nil
  then show ?case by simp
next
  case (Cons a l)
  obtain d r' where a: "a = (d, r')" by (cases a)
  have "recorder_stop pf r' s = s"
    using Cons.prems a by (intro recorder_stop_idle) auto
  then show ?case
    using Cons a by simp
qed

lemma foldl_stop_single:
  assumes "r < length (recorders s)" and "state (recorders s ! r) = Recording"
    and "\<forall>i < length (recorders s). i \<noteq> r \<longrightarrow> state (recorders s ! i) = Inactive"
    and "(d, r) \<in> set l"
  shows "foldl (\<lambda>s (deadline, r). recorder_stop pf r s) s l = recorder_stop pf r s"
  using assms(4)
proof (induction l)
  case Nil
  then show ?case by simp
next
  case (Cons a l)
  obtain d' r' where a: "a = (d', r')" by (cases a)
  show ?case
  proof (cases "r' = r")
    case True
    let ?s' = "recorder_stop pf r s"
    have "\<forall>(d, r') \<in> set l. \<not> (r' < length (recorders ?s') \<and> state (recorders ?s' ! r') = Recording)"
    proof -
      have "state (recorders ?s' ! i) \<noteq> Recording" if "i < length (recorders ?s')" for i
      proof (cases "i = r")
        case True
        then show ?thesis using that by (simp add: recorder_stop_fields(1) [OF assms(1,2)])
      next
        case False
        then show ?thesis
          using that assms(3) by (simp add: recorder_stop_fields(1) [OF assms(1,2)])
      qed
      then show ?thesis by blast
    qed
    then have "foldl (\<lambda>s (deadline, r). recorder_stop pf r s) ?s' l = ?s'"
      by (rule foldl_stop_idle)
    then show ?thesis using a True by simp
  next
    case False
    have "recorder_stop pf r' s = s"
      using False assms(3) by (intro recorder_stop_idle) auto
    moreover have "(d, r) \<in> set l"
      using Cons.prems a False by auto
    ultimately show ?thesis
      using Cons.IH a by simp
  qed
qed

lemma advance_waits:
  assumes "now s \<le> t"
    and "\<And>d r. (d, r) \<in> set (timers s) \<Longrightarrow> d \<le> t \<Longrightarrow>
           \<not> (r < length (recorders s) \<and> state (recorders s ! r) = Recording)"
  shows "advance pf t s =
           s\<lparr>now := t, timers := filter (\<lambda>(deadline, r). \<not> deadline \<le> t) (timers s)\<rparr>"
proof -
  let ?s = "s\<lparr>now := t, timers := filter (\<lambda>(deadline, r). \<not> deadline \<le> t) (timers s)\<rparr>"
  let ?due = "sort_key fst (filter (\<lambda>(deadline, r). deadline \<le> t) (timers s))"
  have "\<forall>(d, r') \<in> set ?due. \<not> (r' < length (recorders ?s) \<and> state (recorders ?s ! r') = Recording)"
    using assms(2) by auto
  then have "foldl (\<lambda>s (deadline, r). recorder_stop pf r s) ?s ?due = ?s"
    by (rule foldl_stop_idle)
  then show ?thesis
    using assms(1) by (simp add: advance_def Let_def)
qed

lemma advance_fires:
  assumes "now s \<le> t" and "r < length (recorders s)" and "state (recorders s ! r) = Recording"
    and "\<forall>i < length (recorders s). i \<noteq> r \<longrightarrow> state (recorders s ! i) = Inactive"
    and "(d, r) \<in> set (timers s)" and "d \<le> t"
  shows "advance pf t s =
           recorder_stop pf r
             (s\<lparr>now := t, timers := filter (\<lambda>(deadline, r). \<not> deadline \<le> t) (timers s)\<rparr>)"
proof -
  let ?s = "s\<lparr>now := t, timers := filter (\<lambda>(deadline, r). \<not> deadline \<le> t) (timers s)\<rparr>"
  let ?due = "sort_key fst (filter (\<lambda>(deadline, r). deadline \<le> t) (timers s))"
  have 1: "r < length (recorders ?s)" "state (recorders ?s ! r) = Recording"
    using assms(2,3) by simp_all
  have 3: "\<forall>i < length (recorders ?s). i \<noteq> r \<longrightarrow> state (recorders ?s ! i) = Inactive"
    using assms(4) by simp
  have 4: "(d, r) \<in> set ?due"
    using assms(5,6) by simp
  have "foldl (\<lambda>s (deadline, r). recorder_stop pf r s) ?s ?due = recorder_stop pf r ?s"
    by (rule foldl_stop_single [OF 1 3 4])
  then show ?thesis
    using assms(1) by (simp add: advance_def Let_def)
qed

lemma advance_fires_fields:
  assumes "now s \<le> t" and "r < length (recorders s)" and "state (recorders s ! r) = Recording"
    and "\<forall>i < length (recorders s). i \<noteq> r \<longrightarrow> state (recorders s ! i) = Inactive"
    and "(d, r) \<in> set (timers s)" and "d \<le> t"
  shows "\<not> isRecording (advance pf t s)"
    and "objectUrls (advance pf t s) =
           objectUrls s @ [chunksRef s @ (if dataSize pf r \<noteq> 0 then [Chunk r (dataSize pf r)] else [])]"
    and "downloadUrl (advance pf t s) = Some (length (objectUrls s))"
    and "prepared (advance pf t s) = prepared s"
proof -
  let ?s = "s\<lparr>now := t, timers := filter (\<lambda>(deadline, r). \<not> deadline \<le> t) (timers s)\<rparr>"
  have 1: "r < length (recorders ?s)" "state (recorders ?s ! r) = Recording"
    using assms(2,3) by simp_all
  note a = advance_fires [OF assms]
  show "\<not> isRecording (advance pf t s)"
    unfolding a by (simp add: recorder_stop_fields(2) [OF 1])
  show "objectUrls (advance pf t s) =
           objectUrls s @ [chunksRef s @ (if dataSize pf r \<noteq> 0 then [Chunk r (dataSize pf r)] else [])]"
    unfolding a recorder_stop_fields(5) [OF 1] by simp
  show "downloadUrl (advance pf t s) = Some (length (objectUrls s))"
    unfolding a recorder_stop_fields(6) [OF 1] by simp
  show "prepared (advance pf t s) = prepared s"
    unfolding a recorder_stop_fields(8) [OF 1] by simp
qed

lemma to_long_small:
  assumes "0 \<le> x" and "x < 2 ^ 31"
  shows "timer_delay x = real_of_int \<lfloor>x\<rfloor>"
proof -
  have f: "0 \<le> \<lfloor>x\<rfloor>" "\<lfloor>x\<rfloor> < 2 ^ 31"
    using assms by (simp_all add: floor_less_iff)
  then have "\<lfloor>x\<rfloor> mod 2 ^ 32 = \<lfloor>x\<rfloor>"
    by simp
  then show ?thesis
    using assms(1) f by (simp add: timer_delay_def to_long_def trunc_def Let_def)
qed

section \<open>The timer of a capture\<close>

lemma click_step:
  assumes "canvasRef st \<noteq> None" "\<not> isRecording st" "isTypeSupported pf (select_mimeType pf)"
  shows "recorders (step pf ClickRecord st) =
           recorders st @ [\<lparr>mimeType = select_mimeType pf, state = Recording\<rparr>]"
    and "timers (step pf ClickRecord st) =
           timers st @ [(now st + timer_delay (duration (store st) * 1000), length (recorders st))]"
    and "now (step pf ClickRecord st) = now st"
    and "chunksRef (step pf ClickRecord st) = []"
    and "objectUrls (step pf ClickRecord st) = objectUrls st"
    and "isRecording (step pf ClickRecord st)"
    and "downloadUrl (step pf ClickRecord st) = None"
    and "playSignal (step pf ClickRecord st) = playSignal st + 1"
    and "prepared (step pf ClickRecord st) = prepared st"
    and "isLoading (step pf ClickRecord st) = isLoading st"
    and "store (step pf ClickRecord st) = store st"
  using assms(2) by (simp_all add: handleRecord_started [OF assms(1,3)] commit_fields)

lemma started_sole:
  assumes "app_inv st" "canvasRef st \<noteq> None" "\<not> isRecording st"
    "isTypeSupported pf (select_mimeType pf)"
  shows "length (recorders st) < length (recorders (step pf ClickRecord st))"
    and "state (recorders (step pf ClickRecord st) ! length (recorders st)) = Recording"
    and "\<forall>i < length (recorders (step pf ClickRecord st)).
           i \<noteq> length (recorders st) \<longrightarrow> state (recorders (step pf ClickRecord st) ! i) = Inactive"
proof -
  note r = click_step(1) [OF assms(2-4)]
  show "length (recorders st) < length (recorders (step pf ClickRecord st))"
    unfolding r by simp
  show "state (recorders (step pf ClickRecord st) ! length (recorders st)) = Recording"
    unfolding r by simp
  show "\<forall>i < length (recorders (step pf ClickRecord st)).
           i \<noteq> length (recorders st) \<longrightarrow> state (recorders (step pf ClickRecord st) ! i) = Inactive"
    unfolding r using app_inv_idle_inactive [OF assms(1,3)]
    by (auto simp: nth_append less_Suc_eq)
qed

lemma click_studio:
  assumes "committed st" "canvasRef st \<noteq> None" "\<not> isRecording st"
    "isTypeSupported pf (select_mimeType pf)" "studio st = Some (k, sc)"
  shows "studio (step pf ClickRecord st) =
           Some (k, sc\<lparr>timeRef := 0, lastPlaySignal := Some (playSignal st + 1)\<rparr>)"
proof -
  from assms(1,5) obtain img where i: "prepared st = Some img" "\<not> isLoading st"
    "k = image_id img" "lastPlaySignal sc = Some (playSignal st)"
    by (auto simp: committed_def split: option.splits if_splits)
  show ?thesis
    using assms(3,5) i
    by (simp add: handleRecord_started [OF assms(2,4)] commit_def commitScene_def)
qed

lemma frame_studio:
  assumes "studio st = Some (k, sc)"
  shows "\<exists>sc'. studio (frame delta st) = Some (k, sc') \<and> timeRef sc' = timeRef sc + delta \<and>
           lastPlaySignal sc' = lastPlaySignal sc"
proof -
  obtain sc' where "useFrame (store st) delta sc = Some sc'" "timeRef sc' = timeRef sc + delta"
    "lastPlaySignal sc' = lastPlaySignal sc"
    using useFrame_time by blast
  then show ?thesis
    using assms by (simp add: frame_def)
qed

text \<open>
  C5, as the code has it. In every reachable idle state with a canvas, on a platform that
  supports the chosen type and with \<open>0 \<le> duration \<cdot> 1000 < 2^31\<close>: the handler
  increments the restart signal before it starts the recorder, and when it returns the
  recorder is recording while the scene is as it was, its accumulator not yet reset. The
  commit that follows sets the accumulator of the mounted scene to 0, and a frame after it
  is evaluated at its own delta. With nothing else happening the recording is still in
  progress, with no new artifact, at every time before \<open>\<lfloor>duration \<cdot> 1000\<rfloor>\<close> milliseconds
  have passed, and from that time on it has stopped and exactly one new object URL, the
  download, exists.
\<close>

theorem capture_auto_stop:
  assumes "\<not> isRecording (run pf evs initial_app)"
    and "canvasRef (run pf evs initial_app) \<noteq> None"
    and "isTypeSupported pf (select_mimeType pf)"
    and "0 \<le> duration (store (run pf evs initial_app)) * 1000"
    and "duration (store (run pf evs initial_app)) * 1000 < 2 ^ 31"
  shows "let st = run pf evs initial_app;
             r = length (recorders st);
             deadline = now st + real_of_int \<lfloor>duration (store st) * 1000\<rfloor>
         in (\<exists>st1. handleRecord pf (isRecording st) (duration (store st)) st = Inr st1 \<and>
               actions st1 = actions st @ [SignalRestart, RecorderStart r] \<and>
               playSignal st1 = playSignal st + 1 \<and>
               state (recorders st1 ! r) = Recording \<and>
               studio st1 = studio st \<and>
               step pf ClickRecord st = commit st1) \<and>
            isRecording (step pf ClickRecord st) \<and>
            state (recorders (step pf ClickRecord st) ! r) = Recording \<and>
            (\<forall>k sc. studio st = Some (k, sc) \<longrightarrow>
               studio (step pf ClickRecord st) =
                 Some (k, sc\<lparr>timeRef := 0, lastPlaySignal := Some (playSignal st + 1)\<rparr>) \<and>
               (\<forall>delta. \<exists>sc'. studio (run pf [ClickRecord, AnimationFrame delta] st) = Some (k, sc') \<and>
                  timeRef sc' = delta)) \<and>
            (\<forall>t. now st \<le> t \<and> t < deadline \<longrightarrow>
               isRecording (run pf [ClickRecord, Advance t] st) \<and>
               objectUrls (run pf [ClickRecord, Advance t] st) = objectUrls st \<and>
               downloadUrl (run pf [ClickRecord, Advance t] st) = None) \<and>
            (\<forall>t. deadline \<le> t \<longrightarrow>
               \<not> isRecording (run pf [ClickRecord, Advance t] st) \<and>
               objectUrls (run pf [ClickRecord, Advance t] st) = objectUrls st @ [capture_blob pf r] \<and>
               downloadUrl (run pf [ClickRecord, Advance t] st) = Some (length (objectUrls st)))"
proof -
  define st where "st = run pf evs initial_app"
  have inv: "app_inv st"
    unfolding st_def by (rule app_inv_reachable)
  have com: "committed st"
    unfolding st_def by (rule committed_reachable)
  have g: "canvasRef st \<noteq> None" "\<not> isRecording st" "isTypeSupported pf (select_mimeType pf)"
    using assms unfolding st_def by simp_all
  have d: "timer_delay (duration (store st) * 1000) = real_of_int \<lfloor>duration (store st) * 1000\<rfloor>"
    using assms(4,5) unfolding st_def by (intro to_long_small) simp_all
  define r where "r = length (recorders st)"
  define dl where "dl = now st + real_of_int \<lfloor>duration (store st) * 1000\<rfloor>"
  let ?st2 = "step pf ClickRecord st"
  note h = handleRecord_started [OF g(1,3), of "duration (store st)"]
  have 1: "\<exists>st1. handleRecord pf (isRecording st) (duration (store st)) st = Inr st1 \<and>
               actions st1 = actions st @ [SignalRestart, RecorderStart r] \<and>
               playSignal st1 = playSignal st + 1 \<and>
               state (recorders st1 ! r) = Recording \<and>
               studio st1 = studio st \<and>
               ?st2 = commit st1"
    using g(2) by (simp add: h r_def)
  have 2: "isRecording ?st2"
    by (rule click_step(6) [OF g])
  have 3: "state (recorders ?st2 ! r) = Recording"
    unfolding r_def by (rule started_sole(2) [OF inv g])
  have 4: "\<forall>k sc. studio st = Some (k, sc) \<longrightarrow>
               studio ?st2 = Some (k, sc\<lparr>timeRef := 0, lastPlaySignal := Some (playSignal st + 1)\<rparr>) \<and>
               (\<forall>delta. \<exists>sc'. studio (run pf [ClickRecord, AnimationFrame delta] st) = Some (k, sc') \<and>
                  timeRef sc' = delta)"
  proof (intro allI impI conjI)
    fix k sc delta
    assume s: "studio st = Some (k, sc)"
    show c: "studio ?st2 = Some (k, sc\<lparr>timeRef := 0, lastPlaySignal := Some (playSignal st + 1)\<rparr>)"
      by (rule click_studio [OF com g s])
    show "\<exists>sc'. studio (run pf [ClickRecord, AnimationFrame delta] st) = Some (k, sc') \<and>
                  timeRef sc' = delta"
      using frame_studio [OF c, of delta] by (auto simp del: step.simps(3))
  qed
  have tm: "timers ?st2 = timers st @ [(dl, r)]"
    unfolding dl_def r_def d [symmetric] by (rule click_step(2) [OF g])
  have nw: "now ?st2 = now st"
    by (rule click_step(3) [OF g])
  have 5: "\<forall>t. now st \<le> t \<and> t < dl \<longrightarrow>
               isRecording (run pf [ClickRecord, Advance t] st) \<and>
               objectUrls (run pf [ClickRecord, Advance t] st) = objectUrls st \<and>
               downloadUrl (run pf [ClickRecord, Advance t] st) = None"
  proof (intro allI impI)
    fix t
    assume t: "now st \<le> t \<and> t < dl"
    have idle: "\<not> (r' < length (recorders ?st2) \<and> state (recorders ?st2 ! r') = Recording)"
      if "(d', r') \<in> set (timers ?st2)" "d' \<le> t" for d' r'
    proof -
      have "(d', r') \<in> set (timers st)"
        using that t unfolding tm by auto
      then have "r' \<noteq> length (recorders st)"
        using app_inv_timers [OF inv] by fastforce
      then show ?thesis
        using started_sole(3) [OF inv g] by auto
    qed
    have a: "advance pf t ?st2 =
        ?st2\<lparr>now := t, timers := filter (\<lambda>(deadline, r). \<not> deadline \<le> t) (timers ?st2)\<rparr>"
      by (rule advance_waits) (use t nw idle in auto)
    show "isRecording (run pf [ClickRecord, Advance t] st) \<and>
               objectUrls (run pf [ClickRecord, Advance t] st) = objectUrls st \<and>
               downloadUrl (run pf [ClickRecord, Advance t] st) = None"
      by (simp del: step.simps(3) add: commit_fields a click_step(5,6,7) [OF g])
  qed
  have 6: "\<forall>t. dl \<le> t \<longrightarrow>
               \<not> isRecording (run pf [ClickRecord, Advance t] st) \<and>
               objectUrls (run pf [ClickRecord, Advance t] st) = objectUrls st @ [capture_blob pf r] \<and>
               downloadUrl (run pf [ClickRecord, Advance t] st) = Some (length (objectUrls st))"
  proof (intro allI impI)
    fix t
    assume t: "dl \<le> t"
    have "0 \<le> real_of_int \<lfloor>duration (store st) * 1000\<rfloor>"
      using assms(4) unfolding st_def by simp
    then have n: "now ?st2 \<le> t"
      using t unfolding nw dl_def by linarith
    have m: "(dl, r) \<in> set (timers ?st2)"
      unfolding tm by simp
    note f = advance_fires_fields [OF n started_sole [OF inv g] m [unfolded r_def] t]
    show "\<not> isRecording (run pf [ClickRecord, Advance t] st) \<and>
               objectUrls (run pf [ClickRecord, Advance t] st) = objectUrls st @ [capture_blob pf r] \<and>
               downloadUrl (run pf [ClickRecord, Advance t] st) = Some (length (objectUrls st))"
      using f(1)
      by (simp del: step.simps(3) add: commit_fields f(2,3) click_step(4,5) [OF g]
          capture_blob_def r_def)
  qed
  show ?thesis
    unfolding Let_def st_def [symmetric] r_def [symmetric] dl_def [symmetric]
    using 1 2 3 4 5 6 by blast
qed

section \<open>Sessions\<close>

lemma demo_select: "select_mimeType demo_platform = ''video/webm;codecs=vp9''"
  by (simp add: select_mimeType_def demo_platform_def)

lemma demo_supported: "isTypeSupported demo_platform t"
  by (simp add: demo_platform_def)

lemma demo_blob: "capture_blob demo_platform r = [Chunk r 1000]"
  by (simp add: capture_blob_def demo_platform_def)

lemma ready_state:
  "run demo_platform capture_ready initial_app =
     initial_app\<lparr>prepared := Some default_image, isLoading := False,
       studio := Some (''id-1'', (initial_scene initial_settings)\<lparr>lastPlaySignal := Some 0\<rparr>),
       canvasRef := Some 0, canvases := 1\<rparr>"
  by (simp add: capture_ready_def commit_def mount_def commitScene_def initial_app_def
      initial_scene_def default_image_def)

lemma ready_facts:
  "\<not> isRecording (run demo_platform capture_ready initial_app)"
  "canvasRef (run demo_platform capture_ready initial_app) \<noteq> None"
  "now (run demo_platform capture_ready initial_app) = 0"
  "duration (store (run demo_platform capture_ready initial_app)) = 8"
  "objectUrls (run demo_platform capture_ready initial_app) = []"
  "recorders (run demo_platform capture_ready initial_app) = []"
  "actions (run demo_platform capture_ready initial_app) = []"
  "playSignal (run demo_platform capture_ready initial_app) = 0"
  "studio (run demo_platform capture_ready initial_app) =
     Some (''id-1'', (initial_scene initial_settings)\<lparr>lastPlaySignal := Some 0\<rparr>)"
  unfolding ready_state by (simp_all add: initial_app_def initial_settings_def)

text \<open>On a platform that supports every type, the first entry of the list is chosen.\<close>

theorem handleRecord_codec_selection_witness:
  "canvasRef (run demo_platform capture_ready initial_app) \<noteq> None \<and>
   \<not> isRecording (run demo_platform capture_ready initial_app) \<and>
   find (isTypeSupported demo_platform) codec_preferences = Some ''video/webm;codecs=vp9'' \<and>
   handleRecord demo_platform False 8 (run demo_platform capture_ready initial_app) \<noteq>
     Inl NotSupportedError \<and>
   (\<exists>st'. handleRecord demo_platform False 8 (run demo_platform capture_ready initial_app) = Inr st' \<and>
      recorders st' = [\<lparr>mimeType = ''video/webm;codecs=vp9'', state = Recording\<rparr>])"
proof -
  let ?st = "run demo_platform capture_ready initial_app"
  have f: "find (isTypeSupported demo_platform) codec_preferences = Some ''video/webm;codecs=vp9''"
    by (simp add: codec_preferences_def demo_platform_def)
  have s: "\<not> (\<forall>m \<in> set codec_preferences. \<not> isTypeSupported demo_platform m)"
    by (auto simp: codec_preferences_def demo_platform_def)
  have i: "isRecording ?st = False"
    using ready_facts(1) by simp
  from handleRecord_codec_selection [OF ready_facts(2,1), of demo_platform 8]
  have 1: "handleRecord demo_platform False 8 ?st = Inl NotSupportedError \<longleftrightarrow>
            (\<forall>m \<in> set codec_preferences. \<not> isTypeSupported demo_platform m)"
    and 2: "\<forall>m. find (isTypeSupported demo_platform) codec_preferences = Some m \<longrightarrow>
            (\<exists>st'. handleRecord demo_platform False 8 ?st = Inr st' \<and> isRecording st' \<and>
               recorders st' = recorders ?st @ [\<lparr>mimeType = m, state = Recording\<rparr>])"
    unfolding i by blast+
  from 1 s have 3: "handleRecord demo_platform False 8 ?st \<noteq> Inl NotSupportedError"
    by blast
  from 2 f have "\<exists>st'. handleRecord demo_platform False 8 ?st = Inr st' \<and>
      recorders st' = recorders ?st @ [\<lparr>mimeType = ''video/webm;codecs=vp9'', state = Recording\<rparr>]"
    by blast
  then have 4: "\<exists>st'. handleRecord demo_platform False 8 ?st = Inr st' \<and>
      recorders st' = [\<lparr>mimeType = ''video/webm;codecs=vp9'', state = Recording\<rparr>]"
    by (simp only: ready_facts(6) append_Nil)
  show ?thesis using ready_facts(1,2) f 3 4 by blast
qed

text \<open>The default duration of eight seconds: recording at 7999 ms, stopped at 8000 ms.\<close>

theorem capture_auto_stop_witness:
  "\<not> isRecording (run demo_platform capture_ready initial_app) \<and>
   canvasRef (run demo_platform capture_ready initial_app) \<noteq> None \<and>
   isTypeSupported demo_platform (select_mimeType demo_platform) \<and>
   0 \<le> duration (store (run demo_platform capture_ready initial_app)) * 1000 \<and>
   duration (store (run demo_platform capture_ready initial_app)) * 1000 < 2 ^ 31 \<and>
   studio (step demo_platform ClickRecord (run demo_platform capture_ready initial_app)) =
     Some (''id-1'', (initial_scene initial_settings)\<lparr>lastPlaySignal := Some 0\<rparr>
                       \<lparr>timeRef := 0, lastPlaySignal := Some 1\<rparr>) \<and>
   isRecording (run demo_platform [ClickRecord, Advance 7999]
     (run demo_platform capture_ready initial_app)) \<and>
   \<not> isRecording (run demo_platform [ClickRecord, Advance 8000]
     (run demo_platform capture_ready initial_app)) \<and>
   objectUrls (run demo_platform [ClickRecord, Advance 8000]
     (run demo_platform capture_ready initial_app)) = [[Chunk 0 1000]]"
proof -
  let ?st = "run demo_platform capture_ready initial_app"
  have h4: "0 \<le> duration (store ?st) * 1000"
    by (simp add: ready_facts)
  have h5: "duration (store ?st) * 1000 < 2 ^ 31"
    by (simp add: ready_facts)
  note c = capture_auto_stop [OF ready_facts(1,2) demo_supported h4 h5, unfolded Let_def]
  have 1: "studio (step demo_platform ClickRecord ?st) =
     Some (''id-1'', (initial_scene initial_settings)\<lparr>lastPlaySignal := Some 0\<rparr>
                       \<lparr>timeRef := 0, lastPlaySignal := Some (playSignal ?st + 1)\<rparr>)"
    using c ready_facts(9) by blast
  have s1: "studio (step demo_platform ClickRecord ?st) =
     Some (''id-1'', (initial_scene initial_settings)\<lparr>lastPlaySignal := Some 0\<rparr>
                       \<lparr>timeRef := 0, lastPlaySignal := Some 1\<rparr>)"
    using 1 unfolding ready_facts(8) by simp
  have fl: "\<lfloor>duration (store ?st) * 1000\<rfloor> = 8000"
    by (simp add: ready_facts)
  have b: "now ?st \<le> 7999 \<and> 7999 < now ?st + real_of_int \<lfloor>duration (store ?st) * 1000\<rfloor>"
    unfolding fl by (simp add: ready_facts)
  have a: "now ?st + real_of_int \<lfloor>duration (store ?st) * 1000\<rfloor> \<le> 8000"
    unfolding fl by (simp add: ready_facts)
  have 2: "isRecording (run demo_platform [ClickRecord, Advance 7999] ?st)"
    using c b by blast
  have 3: "\<not> isRecording (run demo_platform [ClickRecord, Advance 8000] ?st)"
    using c a by blast
  have "objectUrls (run demo_platform [ClickRecord, Advance 8000] ?st) =
          objectUrls ?st @ [capture_blob demo_platform (length (recorders ?st))]"
    using c a by blast
  then have 4: "objectUrls (run demo_platform [ClickRecord, Advance 8000] ?st) = [[Chunk 0 1000]]"
    by (simp only: ready_facts demo_blob list.size append_Nil)
  show ?thesis
    using ready_facts(1,2) demo_supported h4 h5 s1 2 3 4 by blast
qed

section \<open>Replacing the image during a capture\<close>

lemma timer_delay_nonneg: "0 \<le> timer_delay x"
  by (simp add: timer_delay_def)

lemma upload_fields:
  "recorders (step pf (FileChange chosen) st) = recorders st"
  "timers (step pf (FileChange chosen) st) = timers st"
  "now (step pf (FileChange chosen) st) = now st"
  "chunksRef (step pf (FileChange chosen) st) = chunksRef st"
  "objectUrls (step pf (FileChange chosen) st) = objectUrls st"
  "isRecording (step pf (FileChange chosen) st) = isRecording st"
  "downloadUrl (step pf (FileChange (Some name)) st) = None"
  by (cases chosen; simp add: handleFileChange_def commit_fields)+

lemma loaded_fields:
  "recorders (step pf (ReaderLoaded outcome) st) = recorders st"
  "timers (step pf (ReaderLoaded outcome) st) = timers st"
  "now (step pf (ReaderLoaded outcome) st) = now st"
  "chunksRef (step pf (ReaderLoaded outcome) st) = chunksRef st"
  "objectUrls (step pf (ReaderLoaded outcome) st) = objectUrls st"
  "isRecording (step pf (ReaderLoaded outcome) st) = isRecording st"
  "downloadUrl (step pf (ReaderLoaded outcome) st) = downloadUrl st"
  "prepared (step pf (ReaderLoaded (Prepared img)) st) = Some img"
  by (cases outcome; simp add: commit_fields)+

text \<open>
  C6 fails on the code. From every reachable idle state with a canvas, on a platform that
  supports the chosen type: a capture is started, a file is chosen and its preparation
  succeeds. The new image is the active one and the capture of the previous image is still
  recording; when the clock reaches its timer the recording stops and its blob becomes the
  download.
\<close>

theorem upload_leaves_capture_running:
  assumes "\<not> isRecording (run pf evs initial_app)"
    and "canvasRef (run pf evs initial_app) \<noteq> None"
    and "isTypeSupported pf (select_mimeType pf)"
    and "now (run pf evs initial_app) +
           timer_delay (duration (store (run pf evs initial_app)) * 1000) \<le> t"
  shows "let st = run pf evs initial_app;
             during = run pf [ClickRecord, FileChange (Some name), ReaderLoaded (Prepared img)] st;
             final = step pf (Advance t) during
         in prepared during = Some img \<and> isRecording during \<and>
            state (recorders during ! length (recorders st)) = Recording \<and>
            downloadUrl during = None \<and>
            prepared final = Some img \<and> \<not> isRecording final \<and>
            downloadUrl final = Some (length (objectUrls st)) \<and>
            objectUrls final = objectUrls st @ [capture_blob pf (length (recorders st))]"
proof -
  define st where "st = run pf evs initial_app"
  have inv: "app_inv st"
    unfolding st_def by (rule app_inv_reachable)
  have g: "canvasRef st \<noteq> None" "\<not> isRecording st" "isTypeSupported pf (select_mimeType pf)"
    using assms unfolding st_def by simp_all
  define r where "r = length (recorders st)"
  define dl where "dl = now st + timer_delay (duration (store st) * 1000)"
  define s2 where "s2 = step pf ClickRecord st"
  define s4 where "s4 = step pf (ReaderLoaded (Prepared img)) (step pf (FileChange (Some name)) s2)"
  have t: "dl \<le> t"
    using assms(4) unfolding dl_def st_def .
  have rec: "recorders s4 = recorders s2"
    unfolding s4_def by (simp only: loaded_fields upload_fields)
  have tm: "timers s4 = timers st @ [(dl, r)]"
    unfolding s4_def s2_def dl_def r_def
    by (simp only: loaded_fields upload_fields click_step(2) [OF g])
  have nw: "now s4 = now st"
    unfolding s4_def s2_def by (simp only: loaded_fields upload_fields click_step(3) [OF g])
  have ch: "chunksRef s4 = []"
    unfolding s4_def s2_def by (simp only: loaded_fields upload_fields click_step(4) [OF g])
  have ou: "objectUrls s4 = objectUrls st"
    unfolding s4_def s2_def by (simp only: loaded_fields upload_fields click_step(5) [OF g])
  have ir: "isRecording s4"
    unfolding s4_def s2_def by (simp only: loaded_fields upload_fields click_step(6) [OF g])
  have du: "downloadUrl s4 = None"
    unfolding s4_def by (simp only: loaded_fields upload_fields)
  have pr: "prepared s4 = Some img"
    unfolding s4_def by (simp only: loaded_fields)
  have sole: "r < length (recorders s4)" "state (recorders s4 ! r) = Recording"
    "\<forall>i < length (recorders s4). i \<noteq> r \<longrightarrow> state (recorders s4 ! i) = Inactive"
    unfolding rec s2_def r_def by (rule started_sole [OF inv g])+
  have n: "now s4 \<le> t"
    using t timer_delay_nonneg [of "duration (store st) * 1000"] unfolding nw dl_def by linarith
  have m: "(dl, r) \<in> set (timers s4)"
    unfolding tm by simp
  note f = advance_fires_fields [OF n sole m t]
  have d: "run pf [ClickRecord, FileChange (Some name), ReaderLoaded (Prepared img)] st = s4"
    unfolding s4_def s2_def by simp
  have 1: "prepared (step pf (Advance t) s4) = Some img"
    by (simp add: commit_fields f(4) pr)
  have 2: "\<not> isRecording (step pf (Advance t) s4)"
    using f(1) by (simp add: commit_fields)
  have 3: "downloadUrl (step pf (Advance t) s4) = Some (length (objectUrls st))"
    by (simp add: commit_fields f(3) ou)
  have 4: "objectUrls (step pf (Advance t) s4) = objectUrls st @ [capture_blob pf r]"
    by (simp add: commit_fields f(2) ou ch capture_blob_def)
  show ?thesis
    unfolding Let_def st_def [symmetric] d r_def [symmetric]
    using pr ir sole(2) du 1 2 3 4 by blast
qed

text \<open>The session with the default image, the upload of \<open>beach.png\<close> and eight seconds.\<close>

theorem upload_leaves_capture_running_witness:
  "\<not> isRecording (run demo_platform capture_ready initial_app) \<and>
   canvasRef (run demo_platform capture_ready initial_app) \<noteq> None \<and>
   isTypeSupported demo_platform (select_mimeType demo_platform) \<and>
   now (run demo_platform capture_ready initial_app) +
     timer_delay (duration (store (run demo_platform capture_ready initial_app)) * 1000) \<le> 8000 \<and>
   prepared (run demo_platform upload_during_capture initial_app) = Some uploaded_image \<and>
   downloadUrl (run demo_platform upload_during_capture initial_app) = Some 0 \<and>
   objectUrls (run demo_platform upload_during_capture initial_app) = [[Chunk 0 1000]]"
proof -
  let ?st = "run demo_platform capture_ready initial_app"
  have td: "timer_delay (8 * 1000) = 8000"
    by (simp add: timer_delay_def to_long_def trunc_def)
  have h: "now ?st + timer_delay (duration (store ?st) * 1000) \<le> 8000"
    unfolding ready_facts td by simp
  have u: "run demo_platform upload_during_capture initial_app =
      step demo_platform (Advance 8000)
        (run demo_platform
           [ClickRecord, FileChange (Some ''beach.png''), ReaderLoaded (Prepared uploaded_image)] ?st)"
    unfolding upload_during_capture_def capture_started_def run_append by simp
  note c = upload_leaves_capture_running [OF ready_facts(1,2) demo_supported h, of "''beach.png''" uploaded_image,
      unfolded Let_def, folded u]
  have 1: "prepared (run demo_platform upload_during_capture initial_app) = Some uploaded_image"
    using c by blast
  have "downloadUrl (run demo_platform upload_during_capture initial_app) =
          Some (length (objectUrls ?st))"
    using c by blast
  then have 2: "downloadUrl (run demo_platform upload_during_capture initial_app) = Some 0"
    by (simp only: ready_facts list.size)
  have "objectUrls (run demo_platform upload_during_capture initial_app) =
          objectUrls ?st @ [capture_blob demo_platform (length (recorders ?st))]"
    using c by blast
  then have 3: "objectUrls (run demo_platform upload_during_capture initial_app) = [[Chunk 0 1000]]"
    by (simp only: ready_facts demo_blob list.size append_Nil)
  show ?thesis
    using ready_facts(1,2) demo_supported h 1 2 3 by blast
qed

lemma long_delay: "timer_delay (3000000 * 1000) = 0"
  by (simp add: timer_delay_def to_long_def trunc_def)

section \<open>A delay beyond 32 bits, and two calls of one handler\<close>

lemma store_step_committed:
  assumes "committed st"
  shows "step pf (Store c) st = st\<lparr>store := store_step c (store st)\<rparr>"
proof -
  have "committed (st\<lparr>store := store_step c (store st)\<rparr>)"
    using assms by (auto simp: committed_def split: option.splits prod.splits if_splits)
  then show ?thesis
    by (simp add: commit_committed)
qed

lemma long_state:
  "\<not> isRecording (run demo_platform long_capture_ready initial_app)"
  "canvasRef (run demo_platform long_capture_ready initial_app) \<noteq> None"
  "now (run demo_platform long_capture_ready initial_app) = 0"
  "objectUrls (run demo_platform long_capture_ready initial_app) = []"
  "recorders (run demo_platform long_capture_ready initial_app) = []"
  "duration (store (run demo_platform long_capture_ready initial_app)) = 3000000"
  "map_option (\<lambda>(k, sc). timeRef sc)
     (studio (run demo_platform long_capture_ready initial_app)) = Some 5"
proof -
  let ?r = "run demo_platform capture_ready initial_app"
  let ?f = "frame 5 ?r"
  have cf: "committed ?f"
    by (rule committed_frame [OF committed_reachable])
  have l: "run demo_platform long_capture_ready initial_app =
      ?f\<lparr>store := store_step (SetValue Duration 3000000) (store ?f)\<rparr>"
    using store_step_committed [OF cf, of demo_platform "SetValue Duration 3000000"]
    by (simp add: long_capture_ready_def capture_ready_def del: step.simps(2))
  obtain sc' where s: "studio ?f = Some (''id-1'', sc')"
    "timeRef sc' = timeRef ((initial_scene initial_settings)\<lparr>lastPlaySignal := Some 0\<rparr>) + 5"
    using frame_studio [OF ready_facts(9), of 5] by blast
  show "\<not> isRecording (run demo_platform long_capture_ready initial_app)"
    unfolding l using ready_facts(1) by (simp add: frame_fields)
  show "canvasRef (run demo_platform long_capture_ready initial_app) \<noteq> None"
    unfolding l using ready_facts(2) by (simp add: frame_fields)
  show "now (run demo_platform long_capture_ready initial_app) = 0"
    unfolding l by (simp add: frame_fields ready_facts)
  show "objectUrls (run demo_platform long_capture_ready initial_app) = []"
    unfolding l by (simp add: frame_fields ready_facts)
  show "recorders (run demo_platform long_capture_ready initial_app) = []"
    unfolding l by (simp add: frame_fields ready_facts)
  show "duration (store (run demo_platform long_capture_ready initial_app)) = 3000000"
    unfolding l by simp
  show "map_option (\<lambda>(k, sc). timeRef sc)
     (studio (run demo_platform long_capture_ready initial_app)) = Some 5"
    unfolding l using s by (simp add: initial_scene_def)
qed

text \<open>
  C5 as stated fails. After five seconds of frames and with the duration set to three
  million seconds, the handler leaves the recorder recording with the accumulator still at
  5; and the delay of \<open>3 \<cdot> 10^9\<close> ms wraps to a negative 32-bit number, so the timer is due
  at once: 50 ms later the capture has stopped and its download exists.
\<close>

theorem capture_timer_wrap_counterexample:
  "case_sum (\<lambda>e. False)
     (\<lambda>s. state (recorders s ! 0) = Recording \<and>
          map_option (\<lambda>(k, sc). timeRef sc) (studio s) = Some 5)
     (handleRecord demo_platform False 3000000
        (run demo_platform long_capture_ready initial_app)) \<and>
   isRecording (run demo_platform long_capture_ready initial_app) = False \<and>
   duration (store (run demo_platform long_capture_ready initial_app)) = 3000000 \<and>
   (50::real) < 3000000 * 1000 \<and>
   \<not> isRecording (run demo_platform (long_capture_ready @ [ClickRecord, Advance 50]) initial_app) \<and>
   downloadUrl (run demo_platform (long_capture_ready @ [ClickRecord, Advance 50]) initial_app) =
     Some 0"
proof -
  let ?st = "run demo_platform long_capture_ready initial_app"
  let ?st2 = "step demo_platform ClickRecord ?st"
  have inv: "app_inv ?st"
    by (rule app_inv_reachable)
  note g = long_state(2,1) demo_supported [of "select_mimeType demo_platform"]
  have 1: "case_sum (\<lambda>e. False)
     (\<lambda>s. state (recorders s ! 0) = Recording \<and>
          map_option (\<lambda>(k, sc). timeRef sc) (studio s) = Some 5)
     (handleRecord demo_platform False 3000000 ?st)"
    using long_state(5,7) by (simp add: handleRecord_started [OF g(1,3)])
  have tm: "timers ?st2 = timers ?st @ [(0, 0)]"
    unfolding click_step(2) [OF g] long_state long_delay by simp
  have m: "(0, 0) \<in> set (timers ?st2)"
    unfolding tm by simp
  have n: "now ?st2 \<le> 50"
    unfolding click_step(3) [OF g] long_state by simp
  have le: "(0::real) \<le> 50"
    by simp
  note f = advance_fires_fields [where pf = demo_platform,
      OF n started_sole [OF inv g, unfolded long_state list.size] m le]
  have r: "run demo_platform (long_capture_ready @ [ClickRecord, Advance 50]) initial_app =
      commit (advance demo_platform 50 ?st2)"
    unfolding run_append by (simp del: step.simps(3))
  have 2: "\<not> isRecording (run demo_platform (long_capture_ready @ [ClickRecord, Advance 50]) initial_app)"
    unfolding r commit_fields using f(1) .
  have 3: "downloadUrl (run demo_platform (long_capture_ready @ [ClickRecord, Advance 50]) initial_app) = Some 0"
    unfolding r commit_fields f(3) by (simp del: step.simps add: click_step(5) [OF g] long_state)
  show ?thesis
    using 1 2 3 long_state(1,6) by simp
qed

text \<open>
  C4 fails on the code. The handler of the idle render called twice in immediate
  succession passes its guard both times, since the guard reads the flag the render
  captured: two recorders are recording, the restart signal has gone up by two, and after
  the eight seconds two object URLs exist. Two clicks, each on the handler of the render
  committed before it, start one recorder.
\<close>

theorem handleRecord_twice_two_recorders:
  "case_sum (\<lambda>e. None)
     (\<lambda>s. Some (map state (recorders s), playSignal s,
              objectUrls (advance demo_platform 8000 (commit s))))
     (handleRecord_twice demo_platform (run demo_platform capture_ready initial_app)) =
     Some ([Recording, Recording], 2, [[Chunk 0 1000], [Chunk 0 1000, Chunk 1 1000]]) \<and>
   map state (recorders (run demo_platform (capture_ready @ [ClickRecord, ClickRecord]) initial_app)) =
     [Recording]"
proof -
  have td: "timer_delay 8000 = 8000"
    by (simp add: timer_delay_def to_long_def trunc_def)
  have a: "case_sum (\<lambda>e. None)
     (\<lambda>s. Some (map state (recorders s), playSignal s,
              objectUrls (advance demo_platform 8000 (commit s))))
     (handleRecord_twice demo_platform (run demo_platform capture_ready initial_app)) =
     Some ([Recording, Recording], 2, [[Chunk 0 1000], [Chunk 0 1000, Chunk 1 1000]])"
    unfolding handleRecord_twice_def ready_state
    by (simp add: handleRecord_def new_MediaRecorder_def demo_select demo_supported td
        initial_app_def initial_settings_def commit_def commitScene_def initial_scene_def
        default_image_def advance_def recorder_stop_def onstop_def ondataavailable_def
        demo_platform_def Let_def)
  let ?st = "run demo_platform capture_ready initial_app"
  note g = ready_facts(2,1) demo_supported [of "select_mimeType demo_platform"]
  have "handleRecord demo_platform True (duration (store (step demo_platform ClickRecord ?st)))
          (step demo_platform ClickRecord ?st) = Inr (step demo_platform ClickRecord ?st)"
    by (rule handleRecord_guard) simp
  then have "step demo_platform ClickRecord (step demo_platform ClickRecord ?st) =
      commit (step demo_platform ClickRecord ?st)"
    using click_step(6) [OF g] by (simp del: step.simps add: step.simps(3) [of _ "step demo_platform ClickRecord ?st"])
  then have "recorders (run demo_platform (capture_ready @ [ClickRecord, ClickRecord]) initial_app) =
      recorders (step demo_platform ClickRecord ?st)"
    unfolding run_append by (simp del: step.simps add: commit_fields)
  then have b: "map state (recorders (run demo_platform (capture_ready @ [ClickRecord, ClickRecord]) initial_app)) =
     [Recording]"
    unfolding click_step(1) [OF g] ready_facts by simp
  show ?thesis
    using a b by blast
qed

section \<open>The active image\<close>

text \<open>
  At every moment the active image is the one installed last, and there is none before the
  first is installed.
\<close>

lemma prepared_step:
  "prepared (step pf e st) = (case installs e of None \<Rightarrow> prepared st | Some mapped \<Rightarrow> Some mapped)"
proof (cases e)
  case (Bootstrapped r)
  then show ?thesis by (cases r) (simp_all add: commit_fields)
next
  case (Store c)
  then show ?thesis by (simp add: commit_fields)
next
  case ClickRecord
  show ?thesis
  proof (cases "handleRecord pf (isRecording st) (duration (store st)) st")
    case (Inl a)
    then show ?thesis using ClickRecord by simp
  next
    case (Inr st')
    have "prepared st' = prepared st"
      using Inr by (auto simp: handleRecord_def new_MediaRecorder_def Let_def split: if_splits)
    then show ?thesis using ClickRecord Inr by (simp add: commit_fields)
  qed
next
  case ClickStop
  have "prepared (stopRecording pf st) = prepared st"
    by (cases "recorderRef st") (simp_all add: stopRecording_def recorder_stop_fields(8))
  then show ?thesis using ClickStop by (simp add: commit_fields)
next
  case (FileChange chosen)
  then show ?thesis by (cases chosen) (simp_all add: handleFileChange_def commit_fields)
next
  case (ReaderLoaded outcome)
  then show ?thesis by (cases outcome) (simp_all add: commit_fields)
next
  case (Advance t)
  have fold: "prepared (foldl (\<lambda>s (deadline, r). recorder_stop pf r s) s l) = prepared s" for s l
  proof (induction l arbitrary: s)
    case Nil
    then show ?case by simp
  next
    case (Cons a l)
    obtain d r where a: "a = (d, r)" by (cases a)
    have "prepared (recorder_stop pf r s) = prepared s"
      by (cases "r < length (recorders s) \<and> state (recorders s ! r) = Recording")
        (simp_all add: recorder_stop_fields(8) recorder_stop_idle)
    then show ?case using Cons.IH [of "recorder_stop pf r s"] a by simp
  qed
  have "prepared (advance pf t st) = prepared st"
    by (simp add: advance_def Let_def fold)
  then show ?thesis using Advance by (simp add: commit_fields)
next
  case (AnimationFrame delta)
  then show ?thesis by (simp add: frame_fields)
qed

lemma prepared_run: "prepared (run pf evs st) = last_installed evs (prepared st)"
  by (induction evs arbitrary: st) (simp_all add: prepared_step del: step.simps)

lemma prepared_reachable: "prepared (run pf evs initial_app) = last_installed evs None"
  by (simp add: prepared_run initial_app_def)

end
